theory Spec2Isabelle
  imports Main
begin

section \<open>The Glassdoor scraper \<open>get_jobs\<close> (dsjobs_pt1_glassdoorscraper.py)\<close>

text \<open>
  A shallow embedding of \<^verbatim>\<open>get_jobs(num_jobs, verbose, path)\<close>. The browser is the
  environment: what Selenium answers on each page and on each job's detail view is an
  input of the model, and every call the function makes on the driver is recorded in
  a trace, together with the logger calls that announce why the crawl loop ends.
\<close>

subsection \<open>Python values, exceptions, scraped fields\<close>

text \<open>
  The arguments a caller may pass for \<^verbatim>\<open>num_jobs\<close> and \<^verbatim>\<open>path\<close>: an \<^verbatim>\<open>int\<close>, a
  \<^verbatim>\<open>str\<close>, \<^verbatim>\<open>None\<close>, or an object of any other type.
\<close>

datatype pyval = PyInt int | PyStr string | PyNone | PyOther

text \<open>
  The exceptions that leave \<^verbatim>\<open>get_jobs\<close>: the two raised by the validators, the
  \<^verbatim>\<open>ValueError\<close> of a tuple unpacking with too few values, the
  \<^verbatim>\<open>UnboundLocalError\<close> of reading a local variable never assigned, and the
  \<^verbatim>\<open>SystemExit\<close> raised by \<^verbatim>\<open>sys.exit(1)\<close>.
\<close>

datatype error = ValueError | TypeError | UnboundLocalError | SystemExit int

text \<open>A scraped field is the element's text, or the integer \<^verbatim>\<open>-1\<close> ("not found").\<close>

datatype fieldval = NotFound | Text string

record job_record =
  job_title :: fieldval
  salary_estimate :: fieldval
  job_description :: fieldval
  rating :: fieldval
  company_name :: fieldval
  location :: fieldval
  size' :: fieldval
  founded :: fieldval
  type_of_ownership :: fieldval
  industry :: fieldval
  sector :: fieldval
  revenue :: fieldval
  rating_culturevalues :: fieldval
  rating_worklifebalance :: fieldval
  rating_seniormgmt :: fieldval
  rating_compbenefits :: fieldval
  rating_careerops :: fieldval

text \<open>The variables as the source resets them after each job (all \<^verbatim>\<open>-1\<close>).\<close>

definition reset :: job_record where
  "reset = \<lparr>job_title = NotFound, salary_estimate = NotFound, job_description = NotFound,
     rating = NotFound, company_name = NotFound, location = NotFound, size' = NotFound,
     founded = NotFound, type_of_ownership = NotFound, industry = NotFound,
     sector = NotFound, revenue = NotFound, rating_culturevalues = NotFound,
     rating_worklifebalance = NotFound, rating_seniormgmt = NotFound,
     rating_compbenefits = NotFound, rating_careerops = NotFound\<rparr>"

text \<open>The row \<^verbatim>\<open>job_details\<close> written to the CSV file, in the source's order.\<close>

definition job_details :: "job_record \<Rightarrow> fieldval list" where
  "job_details r = [job_title r, salary_estimate r, job_description r, rating r,
     company_name r, location r, size' r, founded r, type_of_ownership r, industry r,
     sector r, revenue r, rating_culturevalues r, rating_worklifebalance r,
     rating_seniormgmt r, rating_compbenefits r, rating_careerops r]"

subsection \<open>The browser as the environment\<close>

text \<open>
  What the driver shows after a click on a job link. A \<open>string option\<close> is the answer
  of \<^verbatim>\<open>find_element(...).text\<close>: \<open>None\<close> is \<^verbatim>\<open>NoSuchElementException\<close>. For the two
  \<^verbatim>\<open>find_elements\<close> queries the list holds the \<^verbatim>\<open>.text\<close> of each element found, and
  \<open>None\<close> is the \<^verbatim>\<open>NoSuchElementException\<close> the source has a handler for.
\<close>

record detail_view =
  el_email_popup :: bool
  el_company_name :: "string option"
  el_location :: "string option"
  el_job_title :: "string option"
  el_job_description :: "string option"
  el_salary_estimate :: "string option"
  el_rating :: "string option"
  el_companydetails :: "string list option"
  el_subratings :: "string list option"

text \<open>
  A job link: the view after the first \<^verbatim>\<open>job_link.click()\<close> and the view after the
  second click, which the source makes only when the description was not found.
\<close>

record job_link =
  first_view :: detail_view
  reload_view :: detail_view

datatype cookie_outcome = CookieClicked | CookieNoSuchElement | CookieNotInteractable

datatype next_outcome = NextClicked | NextNoSuchElement | NextClickIntercepted

text \<open>
  A results page: the outcome of clicking the cookie button, the elements of class
  \<^verbatim>\<open>react-job-listing\<close>, the number of \<^verbatim>\<open>viewedDate\<close> elements (\<open>None\<close>: the
  query raises \<^verbatim>\<open>NoSuchElementException\<close>), the outcome of clicking the next-page
  button, and \<^verbatim>\<open>driver.current_url\<close> while this page is shown.
\<close>

record page =
  cookie_button :: cookie_outcome
  job_links :: "job_link list"
  viewed_dates :: "nat option"
  next_button :: next_outcome
  current_url :: string

subsection \<open>The trace of driver and logger calls\<close>

datatype selector =
    CookieButton | JobListing | ViewedDate | EmailPopup | CompanyName | Location
  | JobTitle | JobDescription | SalaryEstimate | Rating | CompanyDetails | Subratings
  | NextButton

text \<open>
  The logger calls of the crawl loop that tell how a run went: the page and job
  banners, the two "already scraped" messages, the two "target" messages, the two
  next-page errors, the \<^verbatim>\<open>pgc=\<close> error and the two closing messages.
\<close>

datatype log_msg =
    PageBanner int
  | AllAlreadyScraped int
  | SomeAlreadyScraped nat int
  | JobBanner int int
  | TargetReached int int
  | TargetNumberScraped
  | NextPageUnavailable int nat
  | NextPageIntercepted int nat
  | PgcNotInUrl
  | ReturnedDataFrame int
  | SavedCsv int

text \<open>
  \<open>Chrome\<close> is \<^verbatim>\<open>webdriver.Chrome(...)\<close>, which opens the browser session; \<open>Quit\<close>
  stands for \<^verbatim>\<open>driver.quit()\<close> / \<^verbatim>\<open>driver.close()\<close>, which would end it.
\<close>

datatype event =
    Chrome
  | ImplicitlyWait
  | Get
  | FindElement selector
  | FindElements selector
  | Click selector
  | CurrentUrl
  | Quit
  | Log log_msg

subsection \<open>Validation of the arguments\<close>

definition validatenumjobs :: "pyval \<Rightarrow> error + int" where
  "validatenumjobs input =
     (case input of
        PyInt n \<Rightarrow> if n \<le> 0 \<or> n > 900 then Inl ValueError else Inr n
      | _ \<Rightarrow> Inl TypeError)"

text \<open>\<open>isdir\<close> is \<^verbatim>\<open>os.path.isdir\<close>, a fact about the file system.\<close>

definition validatepath :: "(string \<Rightarrow> bool) \<Rightarrow> pyval \<Rightarrow> error + pyval" where
  "validatepath isdir input =
     (if input \<noteq> PyNone then
        (case input of
           PyStr s \<Rightarrow> if isdir s then Inr input else Inl ValueError
         | _ \<Rightarrow> Inl TypeError)
      else Inr input)"

subsection \<open>Field extraction for one job\<close>

definition text_or_notfound :: "string option \<Rightarrow> fieldval" where
  "text_or_notfound el = (case el of None \<Rightarrow> NotFound | Some t \<Rightarrow> Text t)"

text \<open>\<^verbatim>\<open>c.split("\n", 1)\<close>: at most one split, at the first line break.\<close>

definition split1 :: "string \<Rightarrow> string list" where
  "split1 c =
     (if CHR ''\<newline>'' \<in> set c
      then [takeWhile (\<lambda>ch. ch \<noteq> CHR ''\<newline>'') c, tl (dropWhile (\<lambda>ch. ch \<noteq> CHR ''\<newline>'') c)]
      else [c])"

text \<open>\<^verbatim>\<open>x, y = ...\<close>: anything but two values raises \<^verbatim>\<open>ValueError\<close>.\<close>

fun unpack2 :: "string list \<Rightarrow> error + (string \<times> string)" where
  "unpack2 [x, y] = Inr (x, y)"
| "unpack2 _ = Inl ValueError"

text \<open>The loop that fills \<^verbatim>\<open>companydetails_labels\<close> and \<^verbatim>\<open>companydetails_values\<close>.\<close>

fun labels_values ::
  "string list \<Rightarrow> string list \<Rightarrow> string list \<Rightarrow> error + (string list \<times> string list)" where
  "labels_values [] labels vals = Inr (labels, vals)"
| "labels_values (c # cs) labels vals =
     (case unpack2 (split1 c) of
        Inl e \<Rightarrow> Inl e
      | Inr (x, y) \<Rightarrow> labels_values cs (labels @ [x]) (vals @ [y]))"

text \<open>\<^verbatim>\<open>dict(pairs)\<close>: a later pair with the same key replaces the earlier one.\<close>

definition dict :: "(string \<times> string) list \<Rightarrow> (string \<rightharpoonup> string)" where
  "dict kvs = foldl (\<lambda>m (k, v). m(k \<mapsto> v)) Map.empty kvs"

text \<open>\<^verbatim>\<open>d.get(key, -1)\<close>.\<close>

definition dict_get :: "(string \<rightharpoonup> string) \<Rightarrow> string \<Rightarrow> fieldval" where
  "dict_get d k = (case d k of None \<Rightarrow> NotFound | Some v \<Rightarrow> Text v)"

text \<open>
  The company panel (lines 275 to 313). The \<^verbatim>\<open>finally\<close> clause formats \<^verbatim>\<open>size\<close>,
  \<^verbatim>\<open>founded\<close>, ... into log messages. When the unpacking in the \<^verbatim>\<open>else\<close> clause
  raised \<^verbatim>\<open>ValueError\<close>, these variables hold what they held before the statement:
  the \<^verbatim>\<open>-1\<close> of the reset that ends every job, or nothing at all during the first job
  of a run, where reading \<^verbatim>\<open>size\<close> raises \<^verbatim>\<open>UnboundLocalError\<close> in place of the
  \<^verbatim>\<open>ValueError\<close>. \<open>bound\<close> tells whether the variables are bound.
\<close>

definition company_details ::
  "bool \<Rightarrow> string list option \<Rightarrow> job_record \<Rightarrow> error + job_record" where
  "company_details bound els r =
     (case els of
        None \<Rightarrow> Inr (r\<lparr>size' := NotFound, founded := NotFound, type_of_ownership := NotFound,
                       industry := NotFound, sector := NotFound, revenue := NotFound\<rparr>)
      | Some companydetails \<Rightarrow>
          (case labels_values companydetails [] [] of
             Inl e \<Rightarrow> Inl (if bound then e else UnboundLocalError)
           | Inr (labels, vals) \<Rightarrow>
               let companydetails_dict = dict (zip labels vals)
               in Inr (r\<lparr>size' := dict_get companydetails_dict ''Size'',
                         founded := dict_get companydetails_dict ''Founded'',
                         type_of_ownership := dict_get companydetails_dict ''Type'',
                         industry := dict_get companydetails_dict ''Industry'',
                         sector := dict_get companydetails_dict ''Sector'',
                         revenue := dict_get companydetails_dict ''Revenue''\<rparr>)))"

text \<open>The slices \<^verbatim>\<open>xs[0::2]\<close> and \<^verbatim>\<open>xs[1::2]\<close>.\<close>

fun evens :: "'a list \<Rightarrow> 'a list" where
  "evens [] = []"
| "evens [x] = [x]"
| "evens (x # y # xs) = x # evens xs"

fun odds :: "'a list \<Rightarrow> 'a list" where
  "odds [] = []"
| "odds [x] = []"
| "odds (x # y # xs) = y # odds xs"

definition subratings :: "string list option \<Rightarrow> job_record \<Rightarrow> job_record" where
  "subratings els r =
     (case els of
        None \<Rightarrow> r\<lparr>rating_culturevalues := NotFound, rating_worklifebalance := NotFound,
                  rating_seniormgmt := NotFound, rating_compbenefits := NotFound,
                  rating_careerops := NotFound\<rparr>
      | Some subratings_list \<Rightarrow>
          let subratings_dict = dict (zip (evens subratings_list) (odds subratings_list))
          in r\<lparr>rating_culturevalues := dict_get subratings_dict ''Culture & Values'',
                rating_worklifebalance := dict_get subratings_dict ''Work/Life Balance'',
                rating_seniormgmt := dict_get subratings_dict ''Senior Management'',
                rating_compbenefits := dict_get subratings_dict ''Comp & Benefits'',
                rating_careerops := dict_get subratings_dict ''Career Opportunities''\<rparr>)"

text \<open>
  The body of the \<^verbatim>\<open>for job_link in job_links\<close> loop from \<^verbatim>\<open>job_link.click()\<close> to the
  sub-ratings: the scraped variables, or the exception that ends the run, and the
  driver calls made on the way. \<open>bound\<close> tells whether the variables of the company
  panel are bound when the job starts.
\<close>

definition scrape_job :: "bool \<Rightarrow> job_link \<Rightarrow> (error + job_record) \<times> event list" where
  "scrape_job bound jl =
     (let v1 = first_view jl;
          ev1 = [Click JobListing, FindElement EmailPopup]
                @ (if el_email_popup v1 then [Click EmailPopup] else [])
                @ [FindElement CompanyName, FindElement Location, FindElement JobTitle,
                   FindElement JobDescription];
          r1 = reset\<lparr>company_name := text_or_notfound (el_company_name v1),
                      location := text_or_notfound (el_location v1),
                      job_title := text_or_notfound (el_job_title v1)\<rparr>;
          (v, r2, ev2) =
            (case el_job_description v1 of
               Some t \<Rightarrow> (v1, r1\<lparr>job_description := Text t\<rparr>, ev1)
             | None \<Rightarrow>
                 (reload_view jl,
                  r1\<lparr>job_description := text_or_notfound (el_job_description (reload_view jl))\<rparr>,
                  ev1 @ [Click JobListing, FindElement JobDescription]));
          r3 = r2\<lparr>salary_estimate := text_or_notfound (el_salary_estimate v),
                   rating := text_or_notfound (el_rating v)\<rparr>;
          ev3 = ev2 @ [FindElement SalaryEstimate, FindElement Rating,
                       FindElements CompanyDetails]
      in case company_details bound (el_companydetails v) r3 of
           Inl e \<Rightarrow> (Inl e, ev3)
         | Inr r4 \<Rightarrow>
             (Inr (subratings (el_subratings v) r4), ev3 @ [FindElements Subratings]))"

subsection \<open>The crawl state and the record sink\<close>

text \<open>
  The local variables of \<^verbatim>\<open>get_jobs\<close> that the loop reads and writes. \<open>jobs\<close> and
  \<open>vieweddate\<close> are \<open>None\<close> while the variable is unbound: \<^verbatim>\<open>jobs = []\<close> is executed
  only when no path is given, \<^verbatim>\<open>vieweddate\<close> is assigned only when its query returns.
  \<open>csv_file\<close> is the content appended to the CSV file. \<open>details_bound\<close> tells
  whether the variables \<^verbatim>\<open>size\<close>, \<^verbatim>\<open>founded\<close>, ... are bound: they are not when the
  loop is entered, and they are once a job has run through to the reset of the
  variables at its end.
\<close>

record crawl_state =
  job_counter :: int
  nextpage_counter :: int
  jobs :: "job_record list option"
  vieweddate :: "nat option"
  csv_file :: "fieldval list list"
  events :: "event list"
  details_bound :: bool

definition emit :: "event list \<Rightarrow> crawl_state \<Rightarrow> crawl_state" where
  "emit evs st = st\<lparr>events := events st @ evs\<rparr>"

definition sink :: "pyval \<Rightarrow> job_record \<Rightarrow> crawl_state \<Rightarrow> error + crawl_state" where
  "sink path r st =
     (if path \<noteq> PyNone then Inr (st\<lparr>csv_file := csv_file st @ [job_details r]\<rparr>)
      else (case jobs st of
              None \<Rightarrow> Inl UnboundLocalError
            | Some js \<Rightarrow> Inr (st\<lparr>jobs := Some (js @ [r])\<rparr>)))"

subsection \<open>The job loop\<close>

text \<open>The reset of the scraped variables to \<^verbatim>\<open>-1\<close> (lines 397 to 414) leaves them bound.\<close>

definition reset_variables :: "crawl_state \<Rightarrow> crawl_state" where
  "reset_variables st = st\<lparr>details_bound := True\<rparr>"

text \<open>
  \<^verbatim>\<open>for job_link in job_links\<close>: the state after the loop, or the exception and the
  state it was raised in. The loop breaks when \<^verbatim>\<open>job_counter == num_jobs\<close>.
\<close>

fun job_loop :: "int \<Rightarrow> pyval \<Rightarrow> job_link list \<Rightarrow> crawl_state \<Rightarrow> error option \<times> crawl_state" where
  "job_loop num_jobs path [] st = (None, st)"
| "job_loop num_jobs path (jl # rest) st =
     (let st1 = emit [Log (JobBanner (job_counter st + 1) num_jobs)]
                  (st\<lparr>job_counter := job_counter st + 1\<rparr>);
          (res, evs) = scrape_job (details_bound st) jl;
          st2 = emit evs st1
      in case res of
           Inl e \<Rightarrow> (Some e, st2)
         | Inr r \<Rightarrow>
             (case sink path r st2 of
                Inl e \<Rightarrow> (Some e, st2)
              | Inr st3 \<Rightarrow>
                  (let st4 = reset_variables st3
                   in if job_counter st4 = num_jobs
                      then (None, emit [Log (TargetReached (job_counter st4) num_jobs)] st4)
                      else job_loop num_jobs path rest st4)))"

subsection \<open>One iteration of the page loop\<close>

text \<open>\<^verbatim>\<open>sub in s\<close> on strings.\<close>

fun substring_in :: "string \<Rightarrow> string \<Rightarrow> bool" where
  "substring_in sub [] = (sub = [])"
| "substring_in sub (c # s) = (take (length sub) (c # s) = sub \<or> substring_in sub s)"

datatype step = Continue crawl_state | Break crawl_state | Raise error crawl_state

text \<open>
  The click on the next-page button and what follows it. \<open>url_str\<close> is
  \<^verbatim>\<open>driver.current_url\<close> after the click. Both error messages format \<^verbatim>\<open>len(jobs)\<close>.
\<close>

definition next_page :: "int \<Rightarrow> next_outcome \<Rightarrow> string \<Rightarrow> crawl_state \<Rightarrow> step" where
  "next_page num_jobs outcome url_str st =
     (let st1 = emit [FindElement NextButton] st
      in case outcome of
           NextNoSuchElement \<Rightarrow>
             (case jobs st1 of
                None \<Rightarrow> Raise UnboundLocalError st1
              | Some js \<Rightarrow> Break (emit [Log (NextPageUnavailable num_jobs (length js))] st1))
         | NextClickIntercepted \<Rightarrow>
             (let st2 = emit [Click NextButton] st1
              in case jobs st2 of
                   None \<Rightarrow> Raise UnboundLocalError st2
                 | Some js \<Rightarrow> Break (emit [Log (NextPageIntercepted num_jobs (length js))] st2))
         | NextClicked \<Rightarrow>
             (let st2 = emit [Click NextButton, CurrentUrl] st1
              in if substring_in ''pgc='' url_str
                 then Continue (st2\<lparr>nextpage_counter := nextpage_counter st2 + 1\<rparr>)
                 else Raise (SystemExit 1) (emit [Log PgcNotInUrl] st2)))"

text \<open>
  The top of the loop body: the page banner, the cookie pop-up, the query for the job
  links and the query for the \<^verbatim>\<open>viewedDate\<close> elements, whose result is assigned
  to \<^verbatim>\<open>vieweddate\<close> unless the query raises.
\<close>

definition page_entry :: "page \<Rightarrow> crawl_state \<Rightarrow> crawl_state" where
  "page_entry pg st =
     (let st1 = emit ([Log (PageBanner (nextpage_counter st + 1)), FindElement CookieButton]
                      @ (if cookie_button pg = CookieNoSuchElement then [] else [Click CookieButton])
                      @ [FindElements JobListing, FindElements ViewedDate]) st
      in case viewed_dates pg of None \<Rightarrow> st1 | Some n \<Rightarrow> st1\<lparr>vieweddate := Some n\<rparr>)"

text \<open>
  The body of \<^verbatim>\<open>while job_counter < num_jobs\<close> on the page \<open>pg\<close>; \<open>url_str\<close> is the
  URL the driver reports if the next-page click goes through.
\<close>

definition page_iteration :: "int \<Rightarrow> pyval \<Rightarrow> page \<Rightarrow> string \<Rightarrow> crawl_state \<Rightarrow> step" where
  "page_iteration num_jobs path pg url_str st =
     (let st2 = page_entry pg st
      in if viewed_dates pg = Some (length (job_links pg))
         then Break (emit [Log (AllAlreadyScraped (nextpage_counter st + 1))] st2)
         else
           (let st3 = (case viewed_dates pg of
                         None \<Rightarrow> st2
                       | Some n \<Rightarrow> emit [Log (SomeAlreadyScraped n (nextpage_counter st + 1))] st2)
            in case job_loop num_jobs path (job_links pg) st3 of
                 (Some e, st4) \<Rightarrow> Raise e st4
               | (None, st4) \<Rightarrow>
                   (case vieweddate st4 of
                      None \<Rightarrow> Raise UnboundLocalError st4
                    | Some n \<Rightarrow>
                        if n = length (job_links pg) then Break st4
                        else if job_counter st4 = num_jobs
                        then Break (emit [Log TargetNumberScraped] st4)
                        else next_page num_jobs (next_button pg) url_str st4)))"

subsection \<open>The page loop and \<open>get_jobs\<close>\<close>

datatype outcome = Raised error | Returned "job_record list option"

text \<open>
  The code after the loop: the list \<^verbatim>\<open>jobs\<close> becomes the returned DataFrame when no
  path was given; with a path the function returns \<^verbatim>\<open>None\<close>.
\<close>

definition after_loop :: "int \<Rightarrow> pyval \<Rightarrow> crawl_state \<Rightarrow> outcome \<times> crawl_state" where
  "after_loop num_jobs path st =
     (if path = PyNone then
        (case jobs st of
           None \<Rightarrow> (Raised UnboundLocalError, st)
         | Some js \<Rightarrow> (Returned (Some js), emit [Log (ReturnedDataFrame num_jobs)] st))
      else (Returned None, emit [Log (SavedCsv num_jobs)] st))"

text \<open>
  \<^verbatim>\<open>while job_counter < num_jobs\<close>. \<open>site i\<close> is the page the driver shows during the
  iteration in which \<^verbatim>\<open>nextpage_counter\<close> is \<open>i\<close>. The result is \<open>None\<close> when the loop
  never ends.
\<close>

partial_function (option) crawl ::
  "int \<Rightarrow> pyval \<Rightarrow> (int \<Rightarrow> page) \<Rightarrow> crawl_state \<Rightarrow> (outcome \<times> crawl_state) option" where
  "crawl num_jobs path site st =
     (if job_counter st < num_jobs then
        (case page_iteration num_jobs path (site (nextpage_counter st))
                (current_url (site (nextpage_counter st + 1))) st of
           Continue st' \<Rightarrow> crawl num_jobs path site st'
         | Break st' \<Rightarrow> Some (after_loop num_jobs path st')
         | Raise e st' \<Rightarrow> Some (Raised e, st'))
      else Some (after_loop num_jobs path st))"

declare crawl.simps [code]

text \<open>The state when the loop is entered: the driver is created and the start URL loaded.\<close>

definition initial :: "pyval \<Rightarrow> crawl_state" where
  "initial path =
     \<lparr>job_counter = 0, nextpage_counter = 0,
      jobs = (if path \<noteq> PyNone then None else Some []),
      vieweddate = None, csv_file = [],
      events = [Chrome, ImplicitlyWait, Get], details_bound = False\<rparr>"

text \<open>The state in which a validator raises: nothing has happened yet.\<close>

definition untouched :: crawl_state where
  "untouched = \<lparr>job_counter = 0, nextpage_counter = 0, jobs = None, vieweddate = None,
                 csv_file = [], events = [], details_bound = False\<rparr>"

text \<open>
  \<^verbatim>\<open>get_jobs(num_jobs, verbose, path)\<close>. \<open>verbose\<close> only selects the log handlers and
  the log level; it does not change what the function does to the driver or the sink.
\<close>

definition get_jobs ::
  "(string \<Rightarrow> bool) \<Rightarrow> (int \<Rightarrow> page) \<Rightarrow> pyval \<Rightarrow> bool \<Rightarrow> pyval \<Rightarrow> (outcome \<times> crawl_state) option" where
  "get_jobs isdir site num_jobs verbose path =
     (case validatenumjobs num_jobs of
        Inl e \<Rightarrow> Some (Raised e, untouched)
      | Inr n \<Rightarrow>
          (case validatepath isdir path of
             Inl e \<Rightarrow> Some (Raised e, untouched)
           | Inr p \<Rightarrow> crawl n p site (initial p)))"

section \<open>Observations on a run\<close>

text \<open>
  The rows the record sink holds: the lines of the CSV file when a path was given,
  otherwise the dictionaries appended to \<^verbatim>\<open>jobs\<close>, each read in the column order of
  the CSV row.
\<close>

definition sink_rows :: "pyval \<Rightarrow> crawl_state \<Rightarrow> fieldval list list" where
  "sink_rows path st =
     (if path \<noteq> PyNone then csv_file st
      else (case jobs st of None \<Rightarrow> [] | Some js \<Rightarrow> map job_details js))"

text \<open>How often the run opened a browser session, and how often it ended one.\<close>

definition acquired :: "crawl_state \<Rightarrow> nat" where
  "acquired st = count_list (events st) Chrome"

definition released :: "crawl_state \<Rightarrow> nat" where
  "released st = count_list (events st) Quit"

text \<open>The state a loop iteration ends in.\<close>

fun step_state :: "step \<Rightarrow> crawl_state" where
  "step_state (Continue st) = st"
| "step_state (Break st) = st"
| "step_state (Raise e st) = st"

text \<open>A stretch of the trace in which no session is opened or ended.\<close>

definition quiet :: "event list \<Rightarrow> bool" where
  "quiet evs \<longleftrightarrow> Chrome \<notin> set evs \<and> Quit \<notin> set evs"

text \<open>
  The loop invariant of the counter: it lies between 0 and the target, it equals the
  number of rows handed to the sink, and \<^verbatim>\<open>jobs\<close> is bound when no path was given.
\<close>

definition counted :: "int \<Rightarrow> pyval \<Rightarrow> crawl_state \<Rightarrow> bool" where
  "counted n path st \<longleftrightarrow>
     0 \<le> job_counter st \<and> job_counter st \<le> n \<and>
     int (length (sink_rows path st)) = job_counter st \<and>
     (path = PyNone \<longrightarrow> jobs st \<noteq> None)"

section \<open>Example jobs, pages and sites\<close>

text \<open>A file system in which every path is a directory.\<close>

definition any_dir :: "string \<Rightarrow> bool" where
  "any_dir s = True"

text \<open>
  A detail view on which every element is found. Its company panel lists one label
  the source looks up and one it does not; so does its ratings panel.
\<close>

definition view_full :: detail_view where
  "view_full =
     \<lparr>el_email_popup = False, el_company_name = Some ''Acme'', el_location = Some ''London'',
      el_job_title = Some ''Data Scientist'', el_job_description = Some ''Build models'',
      el_salary_estimate = Some ''50K'', el_rating = Some ''4.1'',
      el_companydetails = Some [''Size\<newline>1 to 50 Employees'', ''Headquarters\<newline>Leeds''],
      el_subratings = Some [''Culture & Values'', ''4.0'', ''Diversity'', ''3.5'']\<rparr>"

definition job_full :: job_link where
  "job_full = \<lparr>first_view = view_full, reload_view = view_full\<rparr>"

text \<open>The record scraped from \<open>job_full\<close>.\<close>

definition record_full :: job_record where
  "record_full =
     \<lparr>job_title = Text ''Data Scientist'', salary_estimate = Text ''50K'',
      job_description = Text ''Build models'', rating = Text ''4.1'',
      company_name = Text ''Acme'', location = Text ''London'',
      size' = Text ''1 to 50 Employees'', founded = NotFound, type_of_ownership = NotFound,
      industry = NotFound, sector = NotFound, revenue = NotFound,
      rating_culturevalues = Text ''4.0'', rating_worklifebalance = NotFound,
      rating_seniormgmt = NotFound, rating_compbenefits = NotFound,
      rating_careerops = NotFound\<rparr>"

text \<open>A job whose description is found neither on the first view nor after the reload.\<close>

definition job_no_description :: job_link where
  "job_no_description =
     \<lparr>first_view = view_full\<lparr>el_job_description := None\<rparr>,
      reload_view = view_full\<lparr>el_job_description := None\<rparr>\<rparr>"

text \<open>
  A job whose company panel holds an element whose text has no line break: the label
  \<^verbatim>\<open>Founded\<close> is shown, its value is not.
\<close>

definition job_bad_details :: job_link where
  "job_bad_details =
     \<lparr>first_view = view_full\<lparr>el_companydetails := Some [''Size\<newline>1 to 50 Employees'', ''Founded'']\<rparr>,
      reload_view = view_full\<rparr>"

text \<open>
  A results page without cookie pop-up, on which the \<^verbatim>\<open>viewedDate\<close> query returns
  \<open>seen\<close> elements.
\<close>

definition results_page :: "job_link list \<Rightarrow> nat \<Rightarrow> next_outcome \<Rightarrow> string \<Rightarrow> page" where
  "results_page links seen nxt url =
     \<lparr>cookie_button = CookieNoSuchElement, job_links = links, viewed_dates = Some seen,
      next_button = nxt, current_url = url\<rparr>"

text \<open>Twenty jobs on the page, all of them marked as viewed.\<close>

definition site_all_viewed :: "int \<Rightarrow> page" where
  "site_all_viewed i = results_page (replicate 20 job_full) 20 NextClicked ''https://site/jobs?pgc=A''"

text \<open>A page without job links and without \<^verbatim>\<open>viewedDate\<close> elements.\<close>

definition site_empty :: "int \<Rightarrow> page" where
  "site_empty i = results_page [] 0 NextClicked ''https://site/jobs?pgc=A''"

text \<open>Ten jobs on the page, none of them viewed.\<close>

definition site_ten_unseen :: "int \<Rightarrow> page" where
  "site_ten_unseen i =
     results_page [job_full, job_full, job_full, job_full, job_full,
                   job_full, job_full, job_full, job_full, job_full] 0 NextClicked
       ''https://site/jobs?pgc=A''"

text \<open>Two unseen jobs and no next-page button.\<close>

definition site_no_next :: "int \<Rightarrow> page" where
  "site_no_next i = results_page [job_full, job_full] 0 NextNoSuchElement ''https://site/jobs''"

text \<open>Two unseen jobs and a next-page button whose click is intercepted.\<close>

definition site_next_blocked :: "int \<Rightarrow> page" where
  "site_next_blocked i = results_page [job_full, job_full] 0 NextClickIntercepted ''https://site/jobs''"

text \<open>
  One unseen job per page; the next-page click goes through, and the URL is the same
  on every page and contains \<^verbatim>\<open>pgc=\<close>.
\<close>

definition site_same_url :: "int \<Rightarrow> page" where
  "site_same_url i = results_page [job_full] 0 NextClicked ''https://site/jobs?pgc=A''"

text \<open>
  One unseen job per page; the next-page click goes through and leads to a new URL,
  page \<open>i\<close> having the URL \<^verbatim>\<open>https://site/jobs_IP\<close> followed by \<open>i\<close> letters \<^verbatim>\<open>I\<close>; none
  contains \<^verbatim>\<open>pgc=\<close>.
\<close>

definition site_no_marker :: "int \<Rightarrow> page" where
  "site_no_marker i = results_page [job_full] 0 NextClicked (''https://site/jobs_IP'' @ replicate (nat i) CHR ''I'')"

text \<open>Three unseen jobs, the second with the incomplete company panel.\<close>

definition site_bad_details :: "int \<Rightarrow> page" where
  "site_bad_details i = results_page [job_full, job_bad_details, job_full] 0 NextClicked
     ''https://site/jobs?pgc=A''"

text \<open>Two unseen jobs, the first with the incomplete company panel.\<close>

definition site_bad_details_first :: "int \<Rightarrow> page" where
  "site_bad_details_first i = results_page [job_bad_details, job_full] 0 NextClicked
     ''https://site/jobs?pgc=A''"

section \<open>Lemmas\<close>

subsection \<open>Labels, values and dictionaries\<close>

lemma unpack2_split1:
  "unpack2 (split1 c) =
     (if CHR ''\<newline>'' \<in> set c
      then Inr (takeWhile (\<lambda>ch. ch \<noteq> CHR ''\<newline>'') c, tl (dropWhile (\<lambda>ch. ch \<noteq> CHR ''\<newline>'') c))
      else Inl ValueError)"
  by (simp add: split1_def)

lemma length_split1: "length (split1 c) = 2 \<longleftrightarrow> CHR ''\<newline>'' \<in> set c"
  by (simp add: split1_def)

lemma unpack2_two: "length xs = 2 \<Longrightarrow> unpack2 xs = Inr (hd xs, hd (tl xs))"
  by (cases xs rule: unpack2.cases) auto

lemma unpack2_not_two: "length xs \<noteq> 2 \<Longrightarrow> unpack2 xs = Inl ValueError"
  by (cases xs rule: unpack2.cases) auto

lemma labels_values_closed:
  "labels_values cs labels vals =
     (if \<forall>c\<in>set cs. length (split1 c) = 2
      then Inr (labels @ map (\<lambda>c. hd (split1 c)) cs, vals @ map (\<lambda>c. hd (tl (split1 c))) cs)
      else Inl ValueError)"
proof (induction cs arbitrary: labels vals)
  case Nil
  show ?case by simp
next
  case (Cons c cs)
  show ?case
  proof (cases "length (split1 c) = 2")
    case True
    then show ?thesis using Cons.IH by (simp add: unpack2_two)
  next
    case False
    then show ?thesis by (simp add: unpack2_not_two)
  qed
qed





lemma zip_map_same: "zip (map f xs) (map g xs) = map (\<lambda>x. (f x, g x)) xs"
  by (induction xs) simp_all

lemma company_details_closed:
  "company_details b (Some cs) r =
     (if \<forall>c\<in>set cs. length (split1 c) = 2
      then (let d = dict (map (\<lambda>c. (hd (split1 c), hd (tl (split1 c)))) cs)
            in Inr (r\<lparr>size' := dict_get d ''Size'', founded := dict_get d ''Founded'',
                      type_of_ownership := dict_get d ''Type'', industry := dict_get d ''Industry'',
                      sector := dict_get d ''Sector'', revenue := dict_get d ''Revenue''\<rparr>))
      else Inl (if b then ValueError else UnboundLocalError))"
  by (simp add: company_details_def labels_values_closed zip_map_same Let_def)






subsection \<open>The trace and the sink\<close>

lemma emit_simps [simp]:
  "job_counter (emit evs st) = job_counter st"
  "nextpage_counter (emit evs st) = nextpage_counter st"
  "jobs (emit evs st) = jobs st"
  "vieweddate (emit evs st) = vieweddate st"
  "csv_file (emit evs st) = csv_file st"
  "events (emit evs st) = events st @ evs"
  by (simp_all add: emit_def)

lemma sink_rows_emit [simp]: "sink_rows path (emit evs st) = sink_rows path st"
  by (simp add: sink_rows_def)

lemma sink_Inr:
  assumes "sink path r st = Inr st'"
  shows "job_counter st' = job_counter st" and "nextpage_counter st' = nextpage_counter st"
    and "vieweddate st' = vieweddate st" and "events st' = events st"
    and "sink_rows path st' = sink_rows path st @ [job_details r]"
    and "(jobs st' = None) = (jobs st = None)"
  using assms by (auto simp add: sink_def sink_rows_def split: if_splits option.splits)

lemma sink_total:
  "path = PyNone \<longrightarrow> jobs st \<noteq> None \<Longrightarrow> \<exists>st'. sink path r st = Inr st'"
  by (auto simp add: sink_def split: option.splits)

subsection \<open>One job\<close>

text \<open>
  The driver calls of one job in closed form, and the scalar fields of the record it
  yields: each depends on its own element only.
\<close>

lemma reset_variables_simps [simp]:
  "job_counter (reset_variables st) = job_counter st"
  "nextpage_counter (reset_variables st) = nextpage_counter st"
  "jobs (reset_variables st) = jobs st"
  "vieweddate (reset_variables st) = vieweddate st"
  "csv_file (reset_variables st) = csv_file st"
  "events (reset_variables st) = events st"
  "details_bound (reset_variables st) = True"
  "sink_rows path (reset_variables st) = sink_rows path st"
  by (simp_all add: reset_variables_def sink_rows_def)

lemma sink_reset:
  assumes "sink path r st = Inr s"
  shows "job_counter (reset_variables s) = job_counter st"
    and "nextpage_counter (reset_variables s) = nextpage_counter st"
    and "vieweddate (reset_variables s) = vieweddate st"
    and "events (reset_variables s) = events st"
    and "sink_rows path (reset_variables s) = sink_rows path st @ [job_details r]"
    and "(jobs (reset_variables s) = None) = (jobs st = None)"
  using sink_Inr [OF assms] by simp_all

lemma details_bound_emit [simp]: "details_bound (emit evs st) = details_bound st"
  by (simp add: emit_def)

lemma company_details_keeps:
  assumes "company_details b els r = Inr r'"
  shows "job_title r' = job_title r" and "salary_estimate r' = salary_estimate r"
    and "job_description r' = job_description r" and "rating r' = rating r"
    and "company_name r' = company_name r" and "location r' = location r"
  using assms
  by (auto simp add: company_details_def Let_def split: option.splits sum.splits)

lemma subratings_keeps:
  "job_title (subratings els r) = job_title r"
  "salary_estimate (subratings els r) = salary_estimate r"
  "job_description (subratings els r) = job_description r"
  "rating (subratings els r) = rating r"
  "company_name (subratings els r) = company_name r"
  "location (subratings els r) = location r"
  by (simp_all add: subratings_def Let_def split: option.splits)

lemma scrape_job_events:
  "snd (scrape_job b jl) =
     [Click JobListing, FindElement EmailPopup]
     @ (if el_email_popup (first_view jl) then [Click EmailPopup] else [])
     @ [FindElement CompanyName, FindElement Location, FindElement JobTitle,
        FindElement JobDescription]
     @ (if el_job_description (first_view jl) = None
        then [Click JobListing, FindElement JobDescription] else [])
     @ [FindElement SalaryEstimate, FindElement Rating, FindElements CompanyDetails]
     @ (case fst (scrape_job b jl) of Inl e \<Rightarrow> [] | Inr r \<Rightarrow> [FindElements Subratings])"
  by (simp add: scrape_job_def Let_def split: option.splits sum.splits)

lemma scrape_job_scalars:
  assumes "fst (scrape_job b jl) = Inr r"
  shows "company_name r = text_or_notfound (el_company_name (first_view jl))"
    and "location r = text_or_notfound (el_location (first_view jl))"
    and "job_title r = text_or_notfound (el_job_title (first_view jl))"
    and "job_description r =
           (case el_job_description (first_view jl) of
              Some t \<Rightarrow> Text t
            | None \<Rightarrow> text_or_notfound (el_job_description (reload_view jl)))"
    and "salary_estimate r =
           text_or_notfound (el_salary_estimate
             (if el_job_description (first_view jl) = None then reload_view jl else first_view jl))"
    and "rating r =
           text_or_notfound (el_rating
             (if el_job_description (first_view jl) = None then reload_view jl else first_view jl))"
  using assms
  by (auto simp add: scrape_job_def Let_def subratings_keeps
      split: option.splits sum.splits dest: company_details_keeps)

lemma scrape_job_flag:
  "isl (fst (scrape_job b jl)) = isl (fst (scrape_job b' jl))"
  "fst (scrape_job b jl) = Inr r \<longleftrightarrow> fst (scrape_job b' jl) = Inr r"
  "snd (scrape_job b jl) = snd (scrape_job b' jl)"
  by (auto simp add: scrape_job_def Let_def company_details_def split: option.splits sum.splits)

subsection \<open>The job loop\<close>

lemma quiet_simps [simp]:
  "quiet []"
  "quiet (e # evs) \<longleftrightarrow> e \<noteq> Chrome \<and> e \<noteq> Quit \<and> quiet evs"
  "quiet (evs @ evs') \<longleftrightarrow> quiet evs \<and> quiet evs'"
  by (auto simp add: quiet_def)

lemma scrape_job_quiet: "quiet (snd (scrape_job b jl))"
  by (subst scrape_job_events) (simp split: sum.splits)

lemma scrape_job_job_level:
  "FindElement NextButton \<notin> set (snd (scrape_job b jl))"
  "FindElements JobListing \<notin> set (snd (scrape_job b jl))"
  by (subst scrape_job_events, simp split: sum.splits)+

lemma job_loop_frame:
  "job_loop n path links st = (res, st') \<Longrightarrow>
     nextpage_counter st' = nextpage_counter st \<and> vieweddate st' = vieweddate st \<and>
     (jobs st' = None) = (jobs st = None) \<and>
     (\<exists>evs. events st' = events st @ evs \<and> quiet evs \<and>
            FindElement NextButton \<notin> set evs \<and> FindElements JobListing \<notin> set evs)"
proof (induction links arbitrary: st)
  case Nil
  then show ?case by simp
next
  case (Cons jl rest)
  let ?st2 = "emit (snd (scrape_job (details_bound st) jl))
                (emit [Log (JobBanner (job_counter st + 1) n)] (st\<lparr>job_counter := job_counter st + 1\<rparr>))"
  have ev2: "events ?st2 = events st @ (Log (JobBanner (job_counter st + 1) n) # snd (scrape_job (details_bound st) jl))"
    by simp
  show ?case
  proof (cases "fst (scrape_job (details_bound st) jl)")
    case (Inl e)
    with Cons.prems have "st' = ?st2"
      by (simp add: Let_def split_beta)
    then show ?thesis
      using scrape_job_quiet [of "details_bound st" jl] scrape_job_job_level [of "details_bound st" jl] by (simp add: emit_def)
  next
    case (Inr r)
    show ?thesis
    proof (cases "sink path r ?st2")
      case (Inl e)
      with Inr Cons.prems have "st' = ?st2"
        by (simp add: Let_def split_beta)
      then show ?thesis
        using scrape_job_quiet [of "details_bound st" jl] scrape_job_job_level [of "details_bound st" jl] by (simp add: emit_def)
    next
      case sk: (Inr s3)
      define st3 where "st3 = reset_variables s3"
      note s3 = sink_reset [OF sk, folded st3_def]
      show ?thesis
      proof (cases "job_counter st3 = n")
        case True
        with Inr sk Cons.prems
        have "st' = emit [Log (TargetReached (job_counter st3) n)] st3"
          by (simp add: Let_def split_beta st3_def)
        then show ?thesis
          using s3 scrape_job_quiet [of "details_bound st" jl] scrape_job_job_level [of "details_bound st" jl] by simp
      next
        case False
        with Inr sk Cons.prems have "job_loop n path rest st3 = (res, st')"
          by (simp add: Let_def split_beta st3_def)
        from Cons.IH [OF this] obtain evs where
          f: "nextpage_counter st' = nextpage_counter st3" "vieweddate st' = vieweddate st3"
             "(jobs st' = None) = (jobs st3 = None)"
             "events st' = events st3 @ evs" "quiet evs"
             "FindElement NextButton \<notin> set evs" "FindElements JobListing \<notin> set evs"
          by auto
        have "events st' = events st @ (Log (JobBanner (job_counter st + 1) n) # snd (scrape_job (details_bound st) jl) @ evs)"
          using f(4) s3(4) by simp
        then show ?thesis
          using f s3 scrape_job_quiet [of "details_bound st" jl] scrape_job_job_level [of "details_bound st" jl]
          by (intro conjI exI [of _ "Log (JobBanner (job_counter st + 1) n) # snd (scrape_job (details_bound st) jl) @ evs"]) simp_all
      qed
    qed
  qed
qed

lemma counted_emit [simp]: "counted n path (emit evs st) = counted n path st"
  by (simp add: counted_def)

lemma job_loop_counted:
  "job_loop n path links st = (res, st') \<Longrightarrow> counted n path st \<Longrightarrow> job_counter st < n \<Longrightarrow>
     0 \<le> job_counter st' \<and> job_counter st' \<le> n \<and> (res = None \<longrightarrow> counted n path st')"
proof (induction links arbitrary: st)
  case Nil
  then show ?case by (auto simp add: counted_def)
next
  case (Cons jl rest)
  let ?st2 = "emit (snd (scrape_job (details_bound st) jl))
                (emit [Log (JobBanner (job_counter st + 1) n)] (st\<lparr>job_counter := job_counter st + 1\<rparr>))"
  have jc2: "job_counter ?st2 = job_counter st + 1" by simp
  have bounds2: "0 \<le> job_counter ?st2 \<and> job_counter ?st2 \<le> n"
    using Cons.prems(2,3) by (simp add: counted_def)
  have rows2: "sink_rows path ?st2 = sink_rows path st" "jobs ?st2 = jobs st"
    by (simp_all add: sink_rows_def)
  show ?case
  proof (cases "fst (scrape_job (details_bound st) jl)")
    case (Inl e)
    with Cons.prems(1) have "st' = ?st2" "res = Some e"
      by (simp_all add: Let_def split_beta)
    then show ?thesis using bounds2 by simp
  next
    case (Inr r)
    show ?thesis
    proof (cases "sink path r ?st2")
      case (Inl e)
      with Inr Cons.prems(1) have "st' = ?st2" "res = Some e"
        by (simp_all add: Let_def split_beta)
      then show ?thesis using bounds2 by simp
    next
      case sk: (Inr s3)
      define st3 where "st3 = reset_variables s3"
      note s3 = sink_reset [OF sk, folded st3_def]
      have c3: "counted n path st3"
        using Cons.prems(2) bounds2 s3 rows2 jc2 by (simp add: counted_def)
      show ?thesis
      proof (cases "job_counter st3 = n")
        case True
        with Inr sk Cons.prems(1)
        have "st' = emit [Log (TargetReached (job_counter st3) n)] st3"
          by (simp add: Let_def split_beta st3_def)
        then show ?thesis using c3 by (simp add: counted_def)
      next
        case False
        with Inr sk Cons.prems(1) have "job_loop n path rest st3 = (res, st')"
          by (simp add: Let_def split_beta st3_def)
        moreover have "job_counter st3 < n"
          using False c3 by (simp add: counted_def)
        ultimately show ?thesis using Cons.IH c3 by blast
      qed
    qed
  qed
qed

subsection \<open>One page\<close>

lemma page_entry_simps [simp]:
  "job_counter (page_entry pg st) = job_counter st"
  "nextpage_counter (page_entry pg st) = nextpage_counter st"
  "jobs (page_entry pg st) = jobs st"
  "csv_file (page_entry pg st) = csv_file st"
  "vieweddate (page_entry pg st) = (case viewed_dates pg of None \<Rightarrow> vieweddate st | Some k \<Rightarrow> Some k)"
  "events (page_entry pg st) =
     events st @ [Log (PageBanner (nextpage_counter st + 1)), FindElement CookieButton]
       @ (if cookie_button pg = CookieNoSuchElement then [] else [Click CookieButton])
       @ [FindElements JobListing, FindElements ViewedDate]"
  by (simp_all add: page_entry_def Let_def split: option.splits)

lemma page_entry_counted [simp]: "counted n path (page_entry pg st) = counted n path st"
  by (simp add: counted_def sink_rows_def)

lemma next_page_counted:
  "counted n path st \<Longrightarrow> counted n path (step_state (next_page n outcome u st))"
  by (auto simp add: next_page_def Let_def counted_def sink_rows_def
      split: next_outcome.splits option.splits)

lemma next_page_quiet:
  "\<exists>evs. events (step_state (next_page n outcome u st)) = events st @ evs \<and> quiet evs"
  by (simp add: next_page_def Let_def split: next_outcome.splits option.splits)

lemma page_iteration_counted:
  assumes "counted n path st" and "job_counter st < n"
  shows "case page_iteration n path pg u st of
           Continue s \<Rightarrow> counted n path s
         | Break s \<Rightarrow> counted n path s
         | Raise e s \<Rightarrow> 0 \<le> job_counter s \<and> job_counter s \<le> n"
proof (cases "viewed_dates pg = Some (length (job_links pg))")
  case True
  then show ?thesis using assms by (simp add: page_iteration_def Let_def)
next
  case False
  let ?st3 = "case viewed_dates pg of
                None \<Rightarrow> page_entry pg st
              | Some k \<Rightarrow> emit [Log (SomeAlreadyScraped k (nextpage_counter st + 1))] (page_entry pg st)"
  obtain res st4 where jl: "job_loop n path (job_links pg) ?st3 = (res, st4)"
    by (cases "job_loop n path (job_links pg) ?st3")
  have c3: "counted n path ?st3" "job_counter ?st3 < n"
    using assms by (simp_all split: option.splits)
  from job_loop_counted [OF jl c3]
  have b4: "0 \<le> job_counter st4" "job_counter st4 \<le> n" and c4: "res = None \<longrightarrow> counted n path st4"
    by simp_all
  show ?thesis
  proof (cases res)
    case (Some e)
    then show ?thesis using False jl b4 by (simp add: page_iteration_def Let_def)
  next
    case None
    with c4 have c4': "counted n path st4" by simp
    have "counted n path (step_state (next_page n (next_button pg) u st4))"
      by (rule next_page_counted [OF c4'])
    then have "case next_page n (next_button pg) u st4 of
           Continue s \<Rightarrow> counted n path s
         | Break s \<Rightarrow> counted n path s
         | Raise e s \<Rightarrow> 0 \<le> job_counter s \<and> job_counter s \<le> n"
      by (cases "next_page n (next_button pg) u st4") (simp_all add: counted_def)
    then show ?thesis
      using False jl None b4 c4'
      by (simp add: page_iteration_def Let_def split: option.splits)
  qed
qed

lemma page_iteration_quiet:
  "\<exists>evs. events (step_state (page_iteration n path pg u st)) = events st @ evs \<and> quiet evs"
proof (cases "viewed_dates pg = Some (length (job_links pg))")
  case True
  then show ?thesis by (simp add: page_iteration_def Let_def)
next
  case False
  let ?st3 = "case viewed_dates pg of
                None \<Rightarrow> page_entry pg st
              | Some k \<Rightarrow> emit [Log (SomeAlreadyScraped k (nextpage_counter st + 1))] (page_entry pg st)"
  obtain res st4 where jl: "job_loop n path (job_links pg) ?st3 = (res, st4)"
    by (cases "job_loop n path (job_links pg) ?st3")
  obtain evs3 where e3: "events ?st3 = events st @ evs3" "quiet evs3"
    by (cases "viewed_dates pg") simp_all
  from job_loop_frame [OF jl] obtain evs4 where e4: "events st4 = events ?st3 @ evs4" "quiet evs4"
    by auto
  obtain evs5 where e5: "events (step_state (next_page n (next_button pg) u st4)) = events st4 @ evs5" "quiet evs5"
    using next_page_quiet by blast
  have q4: "events st4 = events st @ (evs3 @ evs4) \<and> quiet (evs3 @ evs4)"
    using e3 e4 by simp
  have q5: "events (step_state (next_page n (next_button pg) u st4)) = events st @ (evs3 @ evs4 @ evs5)
            \<and> quiet (evs3 @ evs4 @ evs5)"
    using e3 e4 e5 by simp
  have q6: "events (emit [Log TargetNumberScraped] st4) = events st @ (evs3 @ evs4 @ [Log TargetNumberScraped])
            \<and> quiet (evs3 @ evs4 @ [Log TargetNumberScraped])"
    using e3 e4 by simp
  show ?thesis
    using False jl q4 q5 q6
    by (auto simp add: page_iteration_def Let_def simp del: quiet_simps split: option.splits)
qed

subsection \<open>The page loop: what holds when it ends\<close>

text \<open>
  Both lemmas on \<open>crawl\<close> are proved by the induction rule of the partial function:
  they speak of the runs that end.
\<close>

lemma after_loop_counted:
  assumes "counted n path st" and "after_loop n path st = (out, st')"
  shows "counted n path st'" and "\<exists>x. out = Returned x"
    and "out = Returned (if path = PyNone then jobs st' else None)"
  using assms by (auto simp add: after_loop_def counted_def split: if_splits option.splits)

lemma after_loop_quiet:
  "\<exists>evs. events (snd (after_loop n path st)) = events st @ evs \<and> quiet evs"
  by (simp add: after_loop_def split: option.splits)

lemma crawl_counted:
  "crawl n path site st = Some y \<Longrightarrow> counted n path st \<Longrightarrow>
     0 \<le> job_counter (snd y) \<and> job_counter (snd y) \<le> n \<and>
     (\<forall>x. fst y = Returned x \<longrightarrow>
        counted n path (snd y) \<and> x = (if path = PyNone then jobs (snd y) else None))"
proof (induction rule: crawl.raw_induct [rotated 1, consumes 1])
  case (1 crawl' n path site st y)
  let ?step = "page_iteration n path (site (nextpage_counter st))
                 (current_url (site (nextpage_counter st + 1))) st"
  show ?case
  proof (cases "job_counter st < n")
    case False
    with "1.hyps" have y: "after_loop n path st = y" by simp
    then have "after_loop n path st = (fst y, snd y)" by simp
    from after_loop_counted [OF "1.prems" this] show ?thesis
      by (auto simp add: counted_def)
  next
    case True
    note pic = page_iteration_counted [OF "1.prems" True, of "site (nextpage_counter st)"
        "current_url (site (nextpage_counter st + 1))"]
    show ?thesis
    proof (cases ?step)
      case (Continue s)
      with pic have "counted n path s" by simp
      moreover from Continue True "1.hyps" have "crawl' n path site s = Some y" by simp
      ultimately show ?thesis by (rule "1.IH" [rotated])
    next
      case (Break s)
      with pic have c: "counted n path s" by simp
      from Break True "1.hyps" have "after_loop n path s = (fst y, snd y)" by simp
      from after_loop_counted [OF c this] show ?thesis
        by (auto simp add: counted_def)
    next
      case (Raise e s)
      with pic have "0 \<le> job_counter s \<and> job_counter s \<le> n" by simp
      moreover from Raise True "1.hyps" have "y = (Raised e, s)" by simp
      ultimately show ?thesis by simp
    qed
  qed
qed

lemma crawl_quiet:
  "crawl n path site st = Some y \<Longrightarrow>
     \<exists>evs. events (snd y) = events st @ evs \<and> quiet evs"
proof (induction rule: crawl.raw_induct [rotated 1, consumes 1])
  case (1 crawl' n path site st y)
  let ?step = "page_iteration n path (site (nextpage_counter st))
                 (current_url (site (nextpage_counter st + 1))) st"
  obtain evs where e: "events (step_state ?step) = events st @ evs" "quiet evs"
    using page_iteration_quiet by blast
  show ?case
  proof (cases "job_counter st < n")
    case False
    with "1.hyps" have "y = after_loop n path st" by simp
    then show ?thesis using after_loop_quiet by simp
  next
    case True
    show ?thesis
    proof (cases ?step)
      case (Continue s)
      with True "1.hyps" have "crawl' n path site s = Some y" by simp
      from "1.IH" [OF this] obtain evs' where "events (snd y) = events s @ evs'" "quiet evs'"
        by blast
      with e Continue have "events (snd y) = events st @ (evs @ evs') \<and> quiet (evs @ evs')"
        by simp
      then show ?thesis by blast
    next
      case (Break s)
      with True "1.hyps" have "y = after_loop n path s" by simp
      with after_loop_quiet [of n path s] obtain evs' where
        "events (snd y) = events s @ evs'" "quiet evs'" by auto
      with e Break have "events (snd y) = events st @ (evs @ evs') \<and> quiet (evs @ evs')"
        by simp
      then show ?thesis by blast
    next
      case (Raise err s)
      with True "1.hyps" have "y = (Raised err, s)" by simp
      with e Raise show ?thesis by auto
    qed
  qed
qed

subsection \<open>The example jobs\<close>

lemmas scrape_defs =
  scrape_job_def company_details_def subratings_def split1_def dict_def dict_get_def
  text_or_notfound_def reset_def Let_def

lemma scrape_job_full: "scrape_job b job_full = (Inr record_full,
   [Click JobListing, FindElement EmailPopup, FindElement CompanyName, FindElement Location,
    FindElement JobTitle, FindElement JobDescription, FindElement SalaryEstimate,
    FindElement Rating, FindElements CompanyDetails, FindElements Subratings])"
  by (simp add: scrape_defs job_full_def view_full_def record_full_def)

lemma scrape_job_no_description: "scrape_job b job_no_description =
  (Inr (record_full\<lparr>job_description := NotFound\<rparr>),
   [Click JobListing, FindElement EmailPopup, FindElement CompanyName, FindElement Location,
    FindElement JobTitle, FindElement JobDescription, Click JobListing,
    FindElement JobDescription, FindElement SalaryEstimate,
    FindElement Rating, FindElements CompanyDetails, FindElements Subratings])"
  by (simp add: scrape_defs job_no_description_def view_full_def record_full_def)

lemma scrape_job_bad_details: "scrape_job b job_bad_details =
  (Inl (if b then ValueError else UnboundLocalError),
   [Click JobListing, FindElement EmailPopup, FindElement CompanyName, FindElement Location,
    FindElement JobTitle, FindElement JobDescription, FindElement SalaryEstimate,
    FindElement Rating, FindElements CompanyDetails])"
  by (simp add: scrape_defs job_bad_details_def view_full_def)

subsection \<open>Ending at page entry\<close>

lemma sink_rows_page_entry [simp]: "sink_rows path (page_entry pg st) = sink_rows path st"
  by (simp add: sink_rows_def)

lemma after_loop_frame:
  assumes "after_loop n path st = (out, st')"
  shows "job_counter st' = job_counter st" and "nextpage_counter st' = nextpage_counter st"
    and "sink_rows path st' = sink_rows path st" and "jobs st' = jobs st"
    and "\<exists>evs. events st' = events st @ evs \<and>
               set evs \<subseteq> {Log (ReturnedDataFrame n), Log (SavedCsv n)}"
  using assms by (auto simp add: after_loop_def sink_rows_def split: if_splits option.splits)

lemma crawl_caught_up:
  assumes "job_counter st < n"
    and "viewed_dates (site (nextpage_counter st)) = Some (length (job_links (site (nextpage_counter st))))"
  shows "crawl n path site st =
           Some (after_loop n path
                  (emit [Log (AllAlreadyScraped (nextpage_counter st + 1))]
                     (page_entry (site (nextpage_counter st)) st)))"
  using assms by (subst crawl.simps) (simp add: page_iteration_def Let_def)

lemma caught_up_facts:
  assumes "job_counter st < n"
    and "viewed_dates (site (nextpage_counter st)) = Some (length (job_links (site (nextpage_counter st))))"
  shows "\<exists>out st' evs. crawl n path site st = Some (out, st') \<and>
           job_counter st' = job_counter st \<and> nextpage_counter st' = nextpage_counter st \<and>
           sink_rows path st' = sink_rows path st \<and> jobs st' = jobs st \<and>
           events st' = events st @ evs \<and>
           Log (AllAlreadyScraped (nextpage_counter st + 1)) \<in> set evs \<and>
           Click JobListing \<notin> set evs \<and> FindElement NextButton \<notin> set evs"
proof -
  let ?s = "emit [Log (AllAlreadyScraped (nextpage_counter st + 1))]
              (page_entry (site (nextpage_counter st)) st)"
  obtain out st' where al: "after_loop n path ?s = (out, st')"
    by (cases "after_loop n path ?s")
  from after_loop_frame(5) [OF al] obtain evs where
    evs: "events st' = events ?s @ evs" "set evs \<subseteq> {Log (ReturnedDataFrame n), Log (SavedCsv n)}"
    by blast
  let ?evs = "[Log (PageBanner (nextpage_counter st + 1)), FindElement CookieButton]
       @ (if cookie_button (site (nextpage_counter st)) = CookieNoSuchElement then [] else [Click CookieButton])
       @ [FindElements JobListing, FindElements ViewedDate]
       @ [Log (AllAlreadyScraped (nextpage_counter st + 1))] @ evs"
  have "crawl n path site st = Some (out, st')"
    using crawl_caught_up [of st n site path] assms al by simp
  moreover have "events st' = events st @ ?evs"
    using evs(1) by simp
  moreover have "Log (AllAlreadyScraped (nextpage_counter st + 1)) \<in> set ?evs"
    by simp
  moreover have "Click JobListing \<notin> set ?evs" "FindElement NextButton \<notin> set ?evs"
    using evs(2) by auto
  moreover have "job_counter st' = job_counter st" "nextpage_counter st' = nextpage_counter st"
    "sink_rows path st' = sink_rows path st" "jobs st' = jobs st"
    using after_loop_frame(1-4) [OF al] by simp_all
  ultimately show ?thesis by blast
qed

subsection \<open>Entering the loop\<close>

lemma validatenumjobs_ok: "1 \<le> n \<Longrightarrow> n \<le> 900 \<Longrightarrow> validatenumjobs (PyInt n) = Inr n"
  by (simp add: validatenumjobs_def)

lemma validatepath_Inr: "validatepath isdir path = Inr p \<Longrightarrow> p = path"
  by (auto simp add: validatepath_def split: if_splits pyval.splits)

lemma initial_simps [simp]:
  "job_counter (initial path) = 0" "nextpage_counter (initial path) = 0"
  "jobs (initial path) = (if path \<noteq> PyNone then None else Some [])"
  "vieweddate (initial path) = None" "csv_file (initial path) = []"
  "events (initial path) = [Chrome, ImplicitlyWait, Get]"
  "sink_rows path (initial path) = []"
  by (simp_all add: initial_def sink_rows_def)

lemma counted_initial: "0 \<le> n \<Longrightarrow> counted n path (initial path)"
  by (simp add: counted_def)

lemmas run_defs =
  get_jobs_def validatenumjobs_def validatepath_def any_dir_def initial_def crawl.simps
  page_iteration_def page_entry_def emit_def sink_def next_page_def after_loop_def
  reset_variables_def results_page_def Let_def

lemma count_list_quiet: "quiet evs \<Longrightarrow> count_list evs Chrome = 0 \<and> count_list evs Quit = 0"
  by (simp add: quiet_def count_list_0_iff)

subsection \<open>Reaching the target on one page\<close>

lemma sink_jobs:
  "sink path r st = Inr st' \<Longrightarrow> path = PyNone \<Longrightarrow> jobs st = Some js \<Longrightarrow> jobs st' = Some (js @ [r])"
  by (auto simp add: sink_def split: if_splits option.splits)

lemma job_loop_target:
  "counted n path st \<Longrightarrow> job_counter st < n \<Longrightarrow> nat (n - job_counter st) \<le> length links \<Longrightarrow>
   \<forall>jl\<in>set (take (nat (n - job_counter st)) links). \<not> isl (fst (scrape_job True jl)) \<Longrightarrow>
   \<exists>st' rs. job_loop n path links st = (None, st') \<and> job_counter st' = n \<and>
     map Inr rs = map (fst \<circ> scrape_job True) (take (nat (n - job_counter st)) links) \<and>
     sink_rows path st' = sink_rows path st @ map job_details rs \<and>
     (\<forall>js. path = PyNone \<and> jobs st = Some js \<longrightarrow> jobs st' = Some (js @ rs)) \<and>
     (\<exists>evs. events st' = events st @ evs \<and> Log (TargetReached n n) \<in> set evs)"
proof (induction links arbitrary: st)
  case Nil
  then show ?case by simp
next
  case (Cons jl rest)
  let ?k = "nat (n - job_counter st)"
  let ?st2 = "emit (snd (scrape_job (details_bound st) jl))
                (emit [Log (JobBanner (job_counter st + 1) n)] (st\<lparr>job_counter := job_counter st + 1\<rparr>))"
  from Cons.prems(2) obtain k' where k: "?k = Suc k'"
    by (cases ?k) auto
  with Cons.prems(4) have "\<not> isl (fst (scrape_job True jl))" by simp
  then obtain r where rT: "fst (scrape_job True jl) = Inr r"
    by (cases "fst (scrape_job True jl)") auto
  then have r: "fst (scrape_job (details_bound st) jl) = Inr r"
    by (simp add: scrape_job_flag(2) [of True jl r "details_bound st"])
  have j2: "path = PyNone \<longrightarrow> jobs ?st2 \<noteq> None"
    using Cons.prems(1) by (simp add: counted_def)
  from sink_total [OF j2] obtain s3 where sk: "sink path r ?st2 = Inr s3" by blast
  define st3 where "st3 = reset_variables s3"
  note s3 = sink_reset [OF sk, folded st3_def]
  have jc3: "job_counter st3 = job_counter st + 1" using s3(1) by simp
  have rows3: "sink_rows path st3 = sink_rows path st @ [job_details r]"
    using s3(5) by (simp add: sink_rows_def)
  have c3: "counted n path st3"
    using Cons.prems(1,2) jc3 rows3 s3(6) by (simp add: counted_def)
  have jobs3: "jobs st3 = Some (js @ [r])" if "path = PyNone" "jobs st = Some js" for js
    using sink_jobs [OF sk that(1), of js] that(2) by (simp add: st3_def)
  show ?case
  proof (cases "job_counter st3 = n")
    case True
    then have k1: "?k = 1" using jc3 by simp
    from True r sk
    have "job_loop n path (jl # rest) st = (None, emit [Log (TargetReached (job_counter st3) n)] st3)"
      by (simp add: Let_def split_beta st3_def)
    moreover have "map Inr [r] = map (fst \<circ> scrape_job True) (take ?k (jl # rest))"
      using k1 rT by simp
    moreover have "events (emit [Log (TargetReached (job_counter st3) n)] st3)
        = events st @ (Log (JobBanner (job_counter st + 1) n) # snd (scrape_job (details_bound st) jl)
                        @ [Log (TargetReached n n)])"
      using True s3(4) by simp
    then have "\<exists>evs. events (emit [Log (TargetReached (job_counter st3) n)] st3) = events st @ evs
                 \<and> Log (TargetReached n n) \<in> set evs"
      by (intro exI [of _ "Log (JobBanner (job_counter st + 1) n) # snd (scrape_job (details_bound st) jl)
                        @ [Log (TargetReached n n)]"]) simp
    ultimately show ?thesis
      using True rows3 jobs3
      by (intro exI [of _ "emit [Log (TargetReached (job_counter st3) n)] st3"] exI [of _ "[r]"]) simp
  next
    case False
    with r sk have step: "job_loop n path (jl # rest) st = job_loop n path rest st3"
      by (simp add: Let_def split_beta st3_def)
    have lt3: "job_counter st3 < n" using False c3 by (simp add: counted_def)
    have k3: "nat (n - job_counter st3) = k'" using k jc3 by simp
    have len3: "nat (n - job_counter st3) \<le> length rest"
      using Cons.prems(3) k k3 by simp
    have all3: "\<forall>jl\<in>set (take (nat (n - job_counter st3)) rest). \<not> isl (fst (scrape_job True jl))"
      using Cons.prems(4) k k3 by simp
    from Cons.IH [OF c3 lt3 len3 all3] obtain st' rs where
      ih: "job_loop n path rest st3 = (None, st')" "job_counter st' = n"
          "map Inr rs = map (fst \<circ> scrape_job True) (take k' rest)"
          "sink_rows path st' = sink_rows path st3 @ map job_details rs"
          "\<forall>js. path = PyNone \<and> jobs st3 = Some js \<longrightarrow> jobs st' = Some (js @ rs)"
          "\<exists>evs. events st' = events st3 @ evs \<and> Log (TargetReached n n) \<in> set evs"
      unfolding k3 by blast
    from ih(6) obtain evs where evs: "events st' = events st3 @ evs" "Log (TargetReached n n) \<in> set evs"
      by blast
    have "events st' = events st @ (Log (JobBanner (job_counter st + 1) n) # snd (scrape_job (details_bound st) jl) @ evs)"
      using evs(1) s3(4) by simp
    with evs(2) have tr: "\<exists>evs. events st' = events st @ evs \<and> Log (TargetReached n n) \<in> set evs"
      by (intro exI [of _ "Log (JobBanner (job_counter st + 1) n) # snd (scrape_job (details_bound st) jl) @ evs"]) simp
    have "map Inr (r # rs) = map (fst \<circ> scrape_job True) (take ?k (jl # rest))"
      using k rT ih(3) by simp
    moreover have "sink_rows path st' = sink_rows path st @ map job_details (r # rs)"
      using ih(4) rows3 by simp
    moreover have "\<forall>js. path = PyNone \<and> jobs st = Some js \<longrightarrow> jobs st' = Some (js @ r # rs)"
      using ih(5) jobs3 by auto
    ultimately show ?thesis
      using step ih(1,2) tr by (intro exI [of _ st'] exI [of _ "r # rs"]) simp
  qed
qed

lemma page_iteration_unseen:
  assumes "viewed_dates pg = Some k" and "k \<noteq> length (job_links pg)"
    and "job_loop n path (job_links pg)
           (emit [Log (SomeAlreadyScraped k (nextpage_counter st + 1))] (page_entry pg st)) = (None, st4)"
  shows "page_iteration n path pg u st =
           (if job_counter st4 = n then Break (emit [Log TargetNumberScraped] st4)
            else next_page n (next_button pg) u st4)"
proof -
  from job_loop_frame [OF assms(3)] assms(1) have "vieweddate st4 = Some k"
    by simp
  with assms show ?thesis
    by (simp add: page_iteration_def Let_def)
qed

lemma crawl_target_reached:
  assumes "counted n path st" and "job_counter st < n"
    and "viewed_dates (site (nextpage_counter st)) = Some k"
    and "k \<noteq> length (job_links (site (nextpage_counter st)))"
    and "nat (n - job_counter st) \<le> length (job_links (site (nextpage_counter st)))"
    and "\<forall>jl\<in>set (take (nat (n - job_counter st)) (job_links (site (nextpage_counter st)))).
           \<not> isl (fst (scrape_job True jl))"
  shows "\<exists>st' rs evs.
           crawl n path site st = Some (Returned (if path = PyNone then jobs st' else None), st') \<and>
           map Inr rs = map (fst \<circ> scrape_job True)
                          (take (nat (n - job_counter st)) (job_links (site (nextpage_counter st)))) \<and>
           sink_rows path st' = sink_rows path st @ map job_details rs \<and>
           (\<forall>js. path = PyNone \<and> jobs st = Some js \<longrightarrow> jobs st' = Some (js @ rs)) \<and>
           job_counter st' = n \<and> nextpage_counter st' = nextpage_counter st \<and>
           events st' = events st @ evs \<and>
           Log (TargetReached n n) \<in> set evs \<and> Log TargetNumberScraped \<in> set evs \<and>
           FindElement NextButton \<notin> set evs \<and>
           count_list evs (FindElements JobListing) = 1"
proof -
  let ?pg = "site (nextpage_counter st)"
  let ?st3 = "emit [Log (SomeAlreadyScraped k (nextpage_counter st + 1))] (page_entry ?pg st)"
  let ?ev3 = "[Log (PageBanner (nextpage_counter st + 1)), FindElement CookieButton]
       @ (if cookie_button ?pg = CookieNoSuchElement then [] else [Click CookieButton])
       @ [FindElements JobListing, FindElements ViewedDate,
          Log (SomeAlreadyScraped k (nextpage_counter st + 1))]"
  have e3: "events ?st3 = events st @ ?ev3" by simp
  have c3: "counted n path ?st3" using assms(1) by simp
  have lt3: "job_counter ?st3 < n" using assms(2) by simp
  have len3: "nat (n - job_counter ?st3) \<le> length (job_links ?pg)"
    using assms(5) by simp
  have all3: "\<forall>jl\<in>set (take (nat (n - job_counter ?st3)) (job_links ?pg)). \<not> isl (fst (scrape_job True jl))"
    using assms(6) by simp
  from job_loop_target [OF c3 lt3 len3 all3]
  have "\<exists>st' rs. job_loop n path (job_links ?pg) ?st3 = (None, st') \<and> job_counter st' = n \<and>
     map Inr rs = map (fst \<circ> scrape_job True) (take (nat (n - job_counter ?st3)) (job_links ?pg)) \<and>
     sink_rows path st' = sink_rows path ?st3 @ map job_details rs \<and>
     (\<forall>js. path = PyNone \<and> jobs ?st3 = Some js \<longrightarrow> jobs st' = Some (js @ rs)) \<and>
     (\<exists>evs. events st' = events ?st3 @ evs \<and> Log (TargetReached n n) \<in> set evs)" .
  then obtain st4 rs evt where
    jl: "job_loop n path (job_links ?pg) ?st3 = (None, st4)" and jc4: "job_counter st4 = n"
    and rs: "map Inr rs = map (fst \<circ> scrape_job True) (take (nat (n - job_counter st)) (job_links ?pg))"
    and rows4: "sink_rows path st4 = sink_rows path st @ map job_details rs"
    and jobs4: "\<forall>js. path = PyNone \<and> jobs st = Some js \<longrightarrow> jobs st4 = Some (js @ rs)"
    and tr4: "events st4 = events ?st3 @ evt" "Log (TargetReached n n) \<in> set evt"
    by auto
  from job_loop_frame [OF jl] obtain evs where
    np4: "nextpage_counter st4 = nextpage_counter st"
    and none4: "(jobs st4 = None) = (jobs st = None)"
    and ev4: "events st4 = events ?st3 @ evs"
    and evs: "FindElement NextButton \<notin> set evs" "FindElements JobListing \<notin> set evs"
    by auto
  from tr4 ev4 have tr: "Log (TargetReached n n) \<in> set evs"
    by simp
  let ?st5 = "emit [Log TargetNumberScraped] st4"
  have it: "page_iteration n path ?pg (current_url (site (nextpage_counter st + 1))) st = Break ?st5"
    using page_iteration_unseen [OF assms(3,4) jl] jc4 by simp
  have run: "crawl n path site st = Some (after_loop n path ?st5)"
    using assms(2) it by (subst crawl.simps) simp
  let ?fin = "emit [Log (if path = PyNone then ReturnedDataFrame n else SavedCsv n)] ?st5"
  have bound: "path = PyNone \<longrightarrow> jobs st4 \<noteq> None"
    using assms(1) none4 by (simp add: counted_def)
  have al: "after_loop n path ?st5 = (Returned (if path = PyNone then jobs ?fin else None), ?fin)"
    using bound by (auto simp add: after_loop_def)
  let ?evs = "?ev3 @ evs
      @ [Log TargetNumberScraped, Log (if path = PyNone then ReturnedDataFrame n else SavedCsv n)]"
  have ev: "events ?fin = events st @ ?evs"
    using ev4 by simp
  have "FindElement NextButton \<notin> set ?evs"
    using evs by simp
  moreover have "count_list ?evs (FindElements JobListing) = 1"
    using evs by (simp add: count_list_0_iff)
  moreover have "Log (TargetReached n n) \<in> set ?evs" "Log TargetNumberScraped \<in> set ?evs"
    using tr by simp_all
  moreover have "sink_rows path ?fin = sink_rows path st @ map job_details rs"
    "job_counter ?fin = n" "nextpage_counter ?fin = nextpage_counter st"
    "\<forall>js. path = PyNone \<and> jobs st = Some js \<longrightarrow> jobs ?fin = Some (js @ rs)"
    using rows4 jc4 np4 jobs4 by simp_all
  ultimately show ?thesis
    using run al rs ev
    by (intro exI [of _ ?fin] exI [of _ rs] exI [of _ ?evs]) (simp del: append_assoc append.simps)
qed

subsection \<open>When a job cannot be scraped\<close>

text \<open>
  One job raises exactly when some element of the company panel does not split in
  two: the \<^verbatim>\<open>ValueError\<close> of the unpacking, or on the first job of a run the
  \<^verbatim>\<open>UnboundLocalError\<close> that replaces it. The record of a job that does not raise, and
  the driver calls of any job, do not depend on whether the variables were bound.
\<close>

lemma scrape_job_raises_iff:
  "fst (scrape_job b jl) = Inl e \<longleftrightarrow>
     e = (if b then ValueError else UnboundLocalError) \<and>
     (\<exists>cs. el_companydetails
             (if el_job_description (first_view jl) = None then reload_view jl else first_view jl) = Some cs
           \<and> (\<exists>c\<in>set cs. length (split1 c) \<noteq> 2))"
proof (cases "el_companydetails
             (if el_job_description (first_view jl) = None then reload_view jl else first_view jl)")
  case None
  then show ?thesis
    by (auto simp add: scrape_job_def Let_def company_details_def split: option.splits)
next
  case (Some cs)
  then show ?thesis
    by (auto simp add: scrape_job_def Let_def company_details_closed split: option.splits if_splits)
qed

subsection \<open>The loop ends\<close>

text \<open>
  A page with job links makes the counter grow, so the loop can only run forever on
  pages without job links that still show \<^verbatim>\<open>viewedDate\<close> elements. On every other site
  \<open>get_jobs\<close> ends, whatever its arguments.
\<close>

lemma job_loop_mono:
  "job_loop n path links st = (res, st') \<Longrightarrow> job_counter st \<le> job_counter st'"
proof (induction links arbitrary: st)
  case Nil
  then show ?case by simp
next
  case (Cons jl rest)
  let ?st2 = "emit (snd (scrape_job (details_bound st) jl))
                (emit [Log (JobBanner (job_counter st + 1) n)] (st\<lparr>job_counter := job_counter st + 1\<rparr>))"
  show ?case
  proof (cases "fst (scrape_job (details_bound st) jl)")
    case (Inl e)
    with Cons.prems have "st' = ?st2" by (simp add: Let_def split_beta)
    then show ?thesis by simp
  next
    case (Inr r)
    show ?thesis
    proof (cases "sink path r ?st2")
      case (Inl e)
      with Inr Cons.prems have "st' = ?st2" by (simp add: Let_def split_beta)
      then show ?thesis by simp
    next
      case sk: (Inr s3)
      define st3 where "st3 = reset_variables s3"
      have jc3: "job_counter st3 = job_counter st + 1"
        using sink_reset(1) [OF sk, folded st3_def] by simp
      show ?thesis
      proof (cases "job_counter st3 = n")
        case True
        with Inr sk Cons.prems
        have "st' = emit [Log (TargetReached (job_counter st3) n)] st3"
          by (simp add: Let_def split_beta st3_def)
        then show ?thesis using jc3 by simp
      next
        case False
        with Inr sk Cons.prems have "job_loop n path rest st3 = (res, st')"
          by (simp add: Let_def split_beta st3_def)
        from Cons.IH [OF this] show ?thesis using jc3 by simp
      qed
    qed
  qed
qed

lemma job_loop_progress:
  assumes "job_loop n path links st = (res, st')" and "links \<noteq> []"
  shows "job_counter st < job_counter st'"
proof -
  from assms(2) obtain jl rest where links: "links = jl # rest" by (cases links) auto
  let ?st2 = "emit (snd (scrape_job (details_bound st) jl))
                (emit [Log (JobBanner (job_counter st + 1) n)] (st\<lparr>job_counter := job_counter st + 1\<rparr>))"
  show ?thesis
  proof (cases "fst (scrape_job (details_bound st) jl)")
    case (Inl e)
    with assms(1) links have "st' = ?st2" by (simp add: Let_def split_beta)
    then show ?thesis by simp
  next
    case (Inr r)
    show ?thesis
    proof (cases "sink path r ?st2")
      case (Inl e)
      with Inr assms(1) links have "st' = ?st2" by (simp add: Let_def split_beta)
      then show ?thesis by simp
    next
      case sk: (Inr s3)
      define st3 where "st3 = reset_variables s3"
      have jc3: "job_counter st3 = job_counter st + 1"
        using sink_reset(1) [OF sk, folded st3_def] by simp
      show ?thesis
      proof (cases "job_counter st3 = n")
        case True
        with Inr sk assms(1) links
        have "st' = emit [Log (TargetReached (job_counter st3) n)] st3"
          by (simp add: Let_def split_beta st3_def)
        then show ?thesis using jc3 by simp
      next
        case False
        with Inr sk assms(1) links have "job_loop n path rest st3 = (res, st')"
          by (simp add: Let_def split_beta st3_def)
        from job_loop_mono [OF this] show ?thesis using jc3 by simp
      qed
    qed
  qed
qed

lemma next_page_job_counter:
  "job_counter (step_state (next_page n outcome u st)) = job_counter st"
  by (simp add: next_page_def Let_def split: next_outcome.splits option.splits)

lemma page_iteration_progress:
  assumes "job_links pg = [] \<longrightarrow> viewed_dates pg = Some 0"
    and "page_iteration n path pg u st = Continue s"
  shows "job_counter st < job_counter s"
proof (cases "viewed_dates pg = Some (length (job_links pg))")
  case True
  with assms(2) show ?thesis by (simp add: page_iteration_def Let_def)
next
  case False
  with assms(1) have ne: "job_links pg \<noteq> []" by auto
  let ?st3 = "case viewed_dates pg of
                None \<Rightarrow> page_entry pg st
              | Some k \<Rightarrow> emit [Log (SomeAlreadyScraped k (nextpage_counter st + 1))] (page_entry pg st)"
  obtain res st4 where jl: "job_loop n path (job_links pg) ?st3 = (res, st4)"
    by (cases "job_loop n path (job_links pg) ?st3")
  have "job_counter ?st3 = job_counter st" by (simp split: option.splits)
  with job_loop_progress [OF jl ne] have lt: "job_counter st < job_counter st4" by simp
  from assms(2) False jl have "next_page n (next_button pg) u st4 = Continue s"
    by (auto simp add: page_iteration_def Let_def split: option.splits if_splits)
  with next_page_job_counter [of n "next_button pg" u st4] have "job_counter s = job_counter st4"
    by simp
  with lt show ?thesis by simp
qed

lemma crawl_returns:
  assumes "\<forall>i. job_links (site i) = [] \<longrightarrow> viewed_dates (site i) = Some 0"
    and "counted n path st"
  shows "\<exists>y. crawl n path site st = Some y"
  using assms(2)
proof (induction "nat (n - job_counter st)" arbitrary: st rule: less_induct)
  case less
  let ?pg = "site (nextpage_counter st)"
  let ?u = "current_url (site (nextpage_counter st + 1))"
  show ?case
  proof (cases "job_counter st < n")
    case False
    then show ?thesis by (subst crawl.simps) simp
  next
    case True
    show ?thesis
    proof (cases "page_iteration n path ?pg ?u st")
      case (Continue s)
      from page_iteration_counted [OF less.prems True, of ?pg ?u] Continue
      have cs: "counted n path s" by simp
      from assms(1) have "job_links ?pg = [] \<longrightarrow> viewed_dates ?pg = Some 0" by blast
      from page_iteration_progress [OF this Continue] have "job_counter st < job_counter s" .
      with True have "nat (n - job_counter s) < nat (n - job_counter st)" by simp
      from less.hyps [OF this cs] obtain y where "crawl n path site s = Some y" by blast
      with Continue True show ?thesis by (subst crawl.simps) simp
    next
      case (Break s)
      with True show ?thesis by (subst crawl.simps) simp
    next
      case (Raise e s)
      with True show ?thesis by (subst crawl.simps) simp
    qed
  qed
qed

lemma get_jobs_returns:
  assumes "\<forall>i. job_links (site i) = [] \<longrightarrow> viewed_dates (site i) = Some 0"
  shows "\<exists>y. get_jobs isdir site num_jobs verbose path = Some y"
proof (cases "validatenumjobs num_jobs")
  case (Inl e)
  then show ?thesis by (simp add: get_jobs_def)
next
  case n: (Inr n)
  then have "0 \<le> n"
    by (auto simp add: validatenumjobs_def split: pyval.splits if_splits)
  show ?thesis
  proof (cases "validatepath isdir path")
    case (Inl e)
    with n show ?thesis by (simp add: get_jobs_def)
  next
    case (Inr p)
    from crawl_returns [OF assms counted_initial [OF \<open>0 \<le> n\<close>], of p]
    show ?thesis using n Inr by (simp add: get_jobs_def)
  qed
qed
subsection \<open>The two panels in full\<close>









section \<open>The claims\<close>

subsection \<open>C1: the check after a next-page click\<close>

text \<open>
  C1 as stated fails. The source never compares the URL after the click with the URL
  before it; it tests whether the new URL contains \<^verbatim>\<open>pgc=\<close>. On a site whose pages
  all report the same URL, and that URL contains the marker, the second click leaves
  the URL as it was and the run goes on to the third page and returns normally.
\<close>

theorem unchanged_url_not_fatal_counterexample:
  "current_url (site_same_url 2) = current_url (site_same_url 1)
   \<and> map_option fst (get_jobs any_dir site_same_url (PyInt 3) False PyNone)
       = Some (Returned (Some [record_full, record_full, record_full]))
   \<and> map_option (nextpage_counter \<circ> snd) (get_jobs any_dir site_same_url (PyInt 3) False PyNone)
       = Some 2"
  by (simp add: run_defs site_same_url_def scrape_job_full)

text \<open>
  C1, as amended. After a next-page click that raised no exception the loop reads the
  current URL: when it does not contain \<^verbatim>\<open>pgc=\<close> the run ends with \<^verbatim>\<open>sys.exit(1)\<close>;
  when it does, the page counter is incremented and the loop goes on with the next
  page. The URL of the page before the click plays no part.
\<close>

theorem pagination_checks_pgc_marker:
  "(let pg = site (nextpage_counter st);
        st3 = emit [Log (SomeAlreadyScraped k (nextpage_counter st + 1))] (page_entry pg st);
        (res, st4) = job_loop n path (job_links pg) st3;
        st5 = emit [Click NextButton, CurrentUrl] (emit [FindElement NextButton] st4)
    in job_counter st < n \<and> viewed_dates pg = Some k \<and> k \<noteq> length (job_links pg) \<and>
       res = None \<and> job_counter st4 \<noteq> n \<and> next_button pg = NextClicked
       \<longrightarrow> crawl n path site st =
            (if substring_in ''pgc='' (current_url (site (nextpage_counter st + 1)))
             then crawl n path site (st5\<lparr>nextpage_counter := nextpage_counter st + 1\<rparr>)
             else Some (Raised (SystemExit 1), emit [Log PgcNotInUrl] st5)))"
proof -
  let ?pg = "site (nextpage_counter st)"
  let ?st3 = "emit [Log (SomeAlreadyScraped k (nextpage_counter st + 1))] (page_entry ?pg st)"
  obtain res st4 where jl: "job_loop n path (job_links ?pg) ?st3 = (res, st4)"
    by (cases "job_loop n path (job_links ?pg) ?st3")
  let ?st5 = "emit [Click NextButton, CurrentUrl] (emit [FindElement NextButton] st4)"
  have "crawl n path site st =
            (if substring_in ''pgc='' (current_url (site (nextpage_counter st + 1)))
             then crawl n path site (?st5\<lparr>nextpage_counter := nextpage_counter st + 1\<rparr>)
             else Some (Raised (SystemExit 1), emit [Log PgcNotInUrl] ?st5))"
    if a: "job_counter st < n" "viewed_dates ?pg = Some k" "k \<noteq> length (job_links ?pg)"
      "res = None" "job_counter st4 \<noteq> n" "next_button ?pg = NextClicked"
  proof -
    from jl a(4) have jl': "job_loop n path (job_links ?pg) ?st3 = (None, st4)" by simp
    from job_loop_frame [OF jl'] have np4: "nextpage_counter st4 = nextpage_counter st"
      by simp
    have "page_iteration n path ?pg (current_url (site (nextpage_counter st + 1))) st
            = next_page n NextClicked (current_url (site (nextpage_counter st + 1))) st4"
      using page_iteration_unseen [OF a(2,3) jl'] a(5,6) by simp
    then show ?thesis
      using a(1) np4 by (subst crawl.simps) (simp add: next_page_def Let_def)
  qed
  then show ?thesis
    using jl by (simp add: Let_def)
qed

theorem pagination_checks_pgc_marker_witness:
  "current_url (site_no_marker 1) \<noteq> current_url (site_no_marker 0)
   \<and> \<not> substring_in ''pgc='' (current_url (site_no_marker 1))
   \<and> map_option fst (crawl 3 PyNone site_no_marker (initial PyNone)) = Some (Raised (SystemExit 1))
   \<and> map_option (nextpage_counter \<circ> snd) (crawl 3 PyNone site_no_marker (initial PyNone)) = Some 0
   \<and> substring_in ''pgc='' (current_url (site_same_url 1))
   \<and> map_option (nextpage_counter \<circ> snd) (crawl 3 PyNone site_same_url (initial PyNone)) = Some 2"
  using pagination_checks_pgc_marker [where st = "initial PyNone" and site = site_no_marker
      and k = 0 and n = 3 and path = PyNone]
    pagination_checks_pgc_marker [where st = "initial PyNone" and site = site_same_url
      and k = 0 and n = 3 and path = PyNone]
  by (simp add: run_defs site_no_marker_def site_same_url_def scrape_job_full)

subsection \<open>C2: all jobs on the page already viewed\<close>

text \<open>
  C2. At every page entry, before any job on that page is opened, the loop compares
  the number of \<^verbatim>\<open>viewedDate\<close> elements with the number of job links; when they are
  equal the loop ends at once: the counter and the sink are as they were, the
  "all already scraped" message is logged, and neither a job link nor the next-page
  button is touched. Hence a run whose first page shows every job as viewed returns
  with \<^verbatim>\<open>job_counter = 0\<close> and an empty sink.
\<close>

theorem caught_up_at_page_entry:
  "(job_counter st < n \<and>
    viewed_dates (site (nextpage_counter st)) = Some (length (job_links (site (nextpage_counter st))))
    \<longrightarrow> (\<exists>out st' evs. crawl n path site st = Some (out, st') \<and>
           job_counter st' = job_counter st \<and> sink_rows path st' = sink_rows path st \<and>
           events st' = events st @ evs \<and>
           Log (AllAlreadyScraped (nextpage_counter st + 1)) \<in> set evs \<and>
           Click JobListing \<notin> set evs \<and> FindElement NextButton \<notin> set evs))
   \<and> (1 \<le> m \<and> m \<le> 900 \<and> validatepath isdir p = Inr p \<and>
       viewed_dates (site 0) = Some (length (job_links (site 0)))
    \<longrightarrow> (\<exists>st'. get_jobs isdir site (PyInt m) verbose p
                 = Some (Returned (if p = PyNone then Some [] else None), st') \<and>
           job_counter st' = 0 \<and> sink_rows p st' = [] \<and>
           Log (AllAlreadyScraped 1) \<in> set (events st') \<and>
           Click JobListing \<notin> set (events st')))"
proof (intro conjI impI)
  assume "job_counter st < n \<and>
    viewed_dates (site (nextpage_counter st)) = Some (length (job_links (site (nextpage_counter st))))"
  then show "\<exists>out st' evs. crawl n path site st = Some (out, st') \<and>
           job_counter st' = job_counter st \<and> sink_rows path st' = sink_rows path st \<and>
           events st' = events st @ evs \<and>
           Log (AllAlreadyScraped (nextpage_counter st + 1)) \<in> set evs \<and>
           Click JobListing \<notin> set evs \<and> FindElement NextButton \<notin> set evs"
    using caught_up_facts [of st n site path] by blast
next
  assume a: "1 \<le> m \<and> m \<le> 900 \<and> validatepath isdir p = Inr p \<and>
       viewed_dates (site 0) = Some (length (job_links (site 0)))"
  then have run: "get_jobs isdir site (PyInt m) verbose p = crawl m p site (initial p)"
    by (simp add: get_jobs_def validatenumjobs_ok)
  from a have "job_counter (initial p) < m"
    and "viewed_dates (site (nextpage_counter (initial p)))
           = Some (length (job_links (site (nextpage_counter (initial p)))))"
    by simp_all
  with caught_up_facts [of "initial p" m site p] obtain out st' evs where
    f: "crawl m p site (initial p) = Some (out, st')" "job_counter st' = 0"
       "sink_rows p st' = []" "jobs st' = jobs (initial p)"
       "events st' = [Chrome, ImplicitlyWait, Get] @ evs"
       "Log (AllAlreadyScraped 1) \<in> set evs" "Click JobListing \<notin> set evs"
    by auto
  from a have "counted m p (initial p)" by (simp add: counted_initial)
  from crawl_counted [OF f(1) this] crawl_caught_up [of "initial p" m site p] a f(1,4)
  have "out = Returned (if p = PyNone then Some [] else None)"
    by (auto simp add: after_loop_def split: if_splits)
  with f run show "\<exists>st'. get_jobs isdir site (PyInt m) verbose p
                 = Some (Returned (if p = PyNone then Some [] else None), st') \<and>
           job_counter st' = 0 \<and> sink_rows p st' = [] \<and>
           Log (AllAlreadyScraped 1) \<in> set (events st') \<and>
           Click JobListing \<notin> set (events st')"
    by auto
qed

theorem caught_up_at_page_entry_witness:
  "(1::int) \<le> 50 \<and> (50::int) \<le> 900 \<and> validatepath any_dir PyNone = Inr PyNone
   \<and> job_counter (initial PyNone) < 50
   \<and> viewed_dates (site_all_viewed 0) = Some (length (job_links (site_all_viewed 0)))
   \<and> length (job_links (site_all_viewed 0)) = 20
   \<and> map_option fst (get_jobs any_dir site_all_viewed (PyInt 50) False PyNone) = Some (Returned (Some []))
   \<and> map_option (job_counter \<circ> snd) (get_jobs any_dir site_all_viewed (PyInt 50) False PyNone) = Some 0"
  using caught_up_at_page_entry [where st = "initial PyNone" and n = 50 and site = site_all_viewed
      and path = PyNone and m = 50 and isdir = any_dir and p = PyNone and verbose = False]
  by (simp add: run_defs site_all_viewed_def)

subsection \<open>C3: the target is checked after every job\<close>

text \<open>
  C3. The job loop compares the counter with the target after every job. When a page
  that is not wholly viewed holds at least as many job links as are still missing,
  and these first jobs can be scraped, the loop stops after the job that reaches the
  target, however many links follow it: the run returns with the "target reached"
  message, the next-page button is never looked for and the job links are not queried
  again, so no further page is entered. In particular, when the first page holds at
  least as many job links as the target \<open>m\<close>, the run returns the records of exactly
  its first \<open>m\<close> jobs, in page order. With a target of 5 and ten unseen jobs the run
  stops after the fifth.
\<close>

theorem target_reached_mid_page:
  "(counted n path st \<and> job_counter st < n \<and>
    viewed_dates (site (nextpage_counter st)) = Some k \<and>
    k \<noteq> length (job_links (site (nextpage_counter st))) \<and>
    nat (n - job_counter st) \<le> length (job_links (site (nextpage_counter st))) \<and>
    (\<forall>jl\<in>set (take (nat (n - job_counter st)) (job_links (site (nextpage_counter st)))).
       \<not> isl (fst (scrape_job True jl)))
    \<longrightarrow> (\<exists>st' rs evs.
           crawl n path site st = Some (Returned (if path = PyNone then jobs st' else None), st') \<and>
           map Inr rs = map (fst \<circ> scrape_job True)
                          (take (nat (n - job_counter st)) (job_links (site (nextpage_counter st)))) \<and>
           sink_rows path st' = sink_rows path st @ map job_details rs \<and>
           job_counter st' = n \<and> nextpage_counter st' = nextpage_counter st \<and>
           events st' = events st @ evs \<and>
           Log (TargetReached n n) \<in> set evs \<and> Log TargetNumberScraped \<in> set evs \<and>
           FindElement NextButton \<notin> set evs \<and>
           count_list evs (FindElements JobListing) = 1))
   \<and> (1 \<le> m \<and> m \<le> 900 \<and> validatepath isdir p = Inr p \<and>
       viewed_dates (site 0) = Some k \<and> k \<noteq> length (job_links (site 0)) \<and>
       nat m \<le> length (job_links (site 0)) \<and>
       (\<forall>jl\<in>set (take (nat m) (job_links (site 0))). \<not> isl (fst (scrape_job True jl)))
    \<longrightarrow> (\<exists>st' rs.
           get_jobs isdir site (PyInt m) verbose p
             = Some (Returned (if p = PyNone then Some rs else None), st') \<and>
           map Inr rs = map (fst \<circ> scrape_job True) (take (nat m) (job_links (site 0))) \<and>
           sink_rows p st' = map job_details rs \<and>
           job_counter st' = m \<and> nextpage_counter st' = 0 \<and>
           Log (TargetReached m m) \<in> set (events st') \<and>
           Log TargetNumberScraped \<in> set (events st') \<and>
           FindElement NextButton \<notin> set (events st') \<and>
           count_list (events st') (FindElements JobListing) = 1))"
proof (rule conjI; rule impI)
  assume a: "counted n path st \<and> job_counter st < n \<and>
    viewed_dates (site (nextpage_counter st)) = Some k \<and>
    k \<noteq> length (job_links (site (nextpage_counter st))) \<and>
    nat (n - job_counter st) \<le> length (job_links (site (nextpage_counter st))) \<and>
    (\<forall>jl\<in>set (take (nat (n - job_counter st)) (job_links (site (nextpage_counter st)))).
       \<not> isl (fst (scrape_job True jl)))"
  with crawl_target_reached [of n path st site k]
  obtain st' rs evs where
    "crawl n path site st = Some (Returned (if path = PyNone then jobs st' else None), st')"
    "map Inr rs = map (fst \<circ> scrape_job True)
                          (take (nat (n - job_counter st)) (job_links (site (nextpage_counter st))))"
    "sink_rows path st' = sink_rows path st @ map job_details rs"
    "job_counter st' = n" "nextpage_counter st' = nextpage_counter st"
    "events st' = events st @ evs"
    "Log (TargetReached n n) \<in> set evs" "Log TargetNumberScraped \<in> set evs"
    "FindElement NextButton \<notin> set evs"
    "count_list evs (FindElements JobListing) = 1"
    by auto
  then show "\<exists>st' rs evs.
           crawl n path site st = Some (Returned (if path = PyNone then jobs st' else None), st') \<and>
           map Inr rs = map (fst \<circ> scrape_job True)
                          (take (nat (n - job_counter st)) (job_links (site (nextpage_counter st)))) \<and>
           sink_rows path st' = sink_rows path st @ map job_details rs \<and>
           job_counter st' = n \<and> nextpage_counter st' = nextpage_counter st \<and>
           events st' = events st @ evs \<and>
           Log (TargetReached n n) \<in> set evs \<and> Log TargetNumberScraped \<in> set evs \<and>
           FindElement NextButton \<notin> set evs \<and>
           count_list evs (FindElements JobListing) = 1"
    by (intro exI [of _ st'] exI [of _ rs] exI [of _ evs]) simp
next
  assume a: "1 \<le> m \<and> m \<le> 900 \<and> validatepath isdir p = Inr p \<and>
       viewed_dates (site 0) = Some k \<and> k \<noteq> length (job_links (site 0)) \<and>
       nat m \<le> length (job_links (site 0)) \<and>
       (\<forall>jl\<in>set (take (nat m) (job_links (site 0))). \<not> isl (fst (scrape_job True jl)))"
  then have run: "get_jobs isdir site (PyInt m) verbose p = crawl m p site (initial p)"
    by (simp add: get_jobs_def validatenumjobs_ok)
  from a have "counted m p (initial p)" by (simp add: counted_initial)
  with a crawl_target_reached [of m p "initial p" site k]
  obtain st' rs evs where f:
    "crawl m p site (initial p) = Some (Returned (if p = PyNone then jobs st' else None), st')"
    "map Inr rs = map (fst \<circ> scrape_job True) (take (nat m) (job_links (site 0)))"
    "sink_rows p st' = map job_details rs"
    "\<forall>js. p = PyNone \<and> jobs (initial p) = Some js \<longrightarrow> jobs st' = Some (js @ rs)"
    "job_counter st' = m" "nextpage_counter st' = 0"
    "events st' = [Chrome, ImplicitlyWait, Get] @ evs"
    "Log (TargetReached m m) \<in> set evs" "Log TargetNumberScraped \<in> set evs"
    "FindElement NextButton \<notin> set evs"
    "count_list evs (FindElements JobListing) = 1"
    by auto
  from f(4) have "p = PyNone \<longrightarrow> jobs st' = Some rs" by simp
  with f run show "\<exists>st' rs.
           get_jobs isdir site (PyInt m) verbose p
             = Some (Returned (if p = PyNone then Some rs else None), st') \<and>
           map Inr rs = map (fst \<circ> scrape_job True) (take (nat m) (job_links (site 0))) \<and>
           sink_rows p st' = map job_details rs \<and>
           job_counter st' = m \<and> nextpage_counter st' = 0 \<and>
           Log (TargetReached m m) \<in> set (events st') \<and>
           Log TargetNumberScraped \<in> set (events st') \<and>
           FindElement NextButton \<notin> set (events st') \<and>
           count_list (events st') (FindElements JobListing) = 1"
    by (intro exI [of _ st'] exI [of _ rs]) auto
qed

theorem target_reached_mid_page_witness:
  "(1::int) \<le> 5 \<and> (5::int) \<le> 900 \<and> validatepath any_dir PyNone = Inr PyNone \<and>
   viewed_dates (site_ten_unseen 0) = Some 0 \<and> 0 \<noteq> length (job_links (site_ten_unseen 0)) \<and>
   nat 5 \<le> length (job_links (site_ten_unseen 0)) \<and>
   set (take (nat 5) (job_links (site_ten_unseen 0))) = {job_full} \<and>
   \<not> isl (fst (scrape_job True job_full)) \<and>
   counted 5 PyNone (initial PyNone) \<and> job_counter (initial PyNone) < 5 \<and>
   map_option fst (get_jobs any_dir site_ten_unseen (PyInt 5) False PyNone)
     = Some (Returned (Some [record_full, record_full, record_full, record_full, record_full])) \<and>
   map_option (job_counter \<circ> snd) (get_jobs any_dir site_ten_unseen (PyInt 5) False PyNone) = Some 5"
proof -
  have h: "(1::int) \<le> 5" "(5::int) \<le> 900" "validatepath any_dir PyNone = Inr PyNone"
    "viewed_dates (site_ten_unseen 0) = Some 0" "0 \<noteq> length (job_links (site_ten_unseen 0))"
    "nat 5 \<le> length (job_links (site_ten_unseen 0))"
    "set (take (nat 5) (job_links (site_ten_unseen 0))) = {job_full}"
    "\<not> isl (fst (scrape_job True job_full))"
    "counted 5 PyNone (initial PyNone)" "job_counter (initial PyNone) < 5"
    by (simp_all add: validatepath_def site_ten_unseen_def results_page_def scrape_job_full
        counted_initial)
  from target_reached_mid_page [where n = 5 and path = PyNone and st = "initial PyNone"
      and site = site_ten_unseen and k = 0 and m = 5 and isdir = any_dir and p = PyNone
      and verbose = False] h
  show ?thesis
    by (auto simp add: site_ten_unseen_def results_page_def scrape_job_full map_eq_Cons_conv)
qed

subsection \<open>C4: the job counter never exceeds the target\<close>

text \<open>
  C4. For a target between 1 and 900, whenever the run ends (by return or by an
  exception), the counter, which starts at 0, lies between 0 and the target; when the
  run returns, the counter equals the number of records handed to the sink, so it
  grew by one per job.
\<close>

theorem job_counter_bounded:
  assumes "get_jobs isdir site (PyInt n) verbose path = Some (out, st')"
    and "1 \<le> n" and "n \<le> 900"
  shows "job_counter (initial path) = 0 \<and> 0 \<le> job_counter st' \<and> job_counter st' \<le> n \<and>
         (\<forall>js. out = Returned (Some js) \<longrightarrow> int (length js) = job_counter st') \<and>
         (out = Returned None \<longrightarrow> int (length (csv_file st')) = job_counter st')"
proof (cases "validatepath isdir path")
  case (Inl e)
  with assms have "out = Raised e" "st' = untouched"
    by (simp_all add: get_jobs_def validatenumjobs_ok)
  with assms(2) show ?thesis by (simp add: untouched_def)
next
  case (Inr p)
  then have p: "p = path" by (rule validatepath_Inr)
  with Inr assms have run: "crawl n path site (initial path) = Some (out, st')"
    by (simp add: get_jobs_def validatenumjobs_ok)
  from assms(2) have "counted n path (initial path)" by (simp add: counted_initial)
  from crawl_counted [OF run this]
  have b: "0 \<le> job_counter st'" "job_counter st' \<le> n"
    and r: "\<And>x. out = Returned x \<Longrightarrow>
               counted n path st' \<and> x = (if path = PyNone then jobs st' else None)"
    by simp_all
  have "int (length js) = job_counter st'" if "out = Returned (Some js)" for js
    using r [OF that] by (auto simp add: counted_def sink_rows_def split: if_splits)
  moreover have "int (length (csv_file st')) = job_counter st'" if "out = Returned None"
    using r [OF that] by (auto simp add: counted_def sink_rows_def split: if_splits)
  ultimately show ?thesis using b by simp
qed

theorem job_counter_bounded_witness:
  "get_jobs any_dir site_no_next (PyInt 5) False PyNone
     = Some (Returned (Some [record_full, record_full]),
             \<lparr>job_counter = 2, nextpage_counter = 0, jobs = Some [record_full, record_full],
              vieweddate = Some 0, csv_file = [],
              events = [Chrome, ImplicitlyWait, Get, Log (PageBanner 1), FindElement CookieButton,
                FindElements JobListing, FindElements ViewedDate, Log (SomeAlreadyScraped 0 1),
                Log (JobBanner 1 5), Click JobListing, FindElement EmailPopup,
                FindElement CompanyName, FindElement Location, FindElement JobTitle,
                FindElement JobDescription, FindElement SalaryEstimate, FindElement Rating,
                FindElements CompanyDetails, FindElements Subratings,
                Log (JobBanner 2 5), Click JobListing, FindElement EmailPopup,
                FindElement CompanyName, FindElement Location, FindElement JobTitle,
                FindElement JobDescription, FindElement SalaryEstimate, FindElement Rating,
                FindElements CompanyDetails, FindElements Subratings,
                FindElement NextButton, Log (NextPageUnavailable 5 2),
                Log (ReturnedDataFrame 5)], details_bound = True\<rparr>)
   \<and> (1::int) \<le> 5 \<and> (5::int) \<le> 900 \<and> (2::int) \<le> 5
   \<and> int (length [record_full, record_full]) = 2"
proof -
  have run: "get_jobs any_dir site_no_next (PyInt 5) False PyNone
     = Some (Returned (Some [record_full, record_full]),
             \<lparr>job_counter = 2, nextpage_counter = 0, jobs = Some [record_full, record_full],
              vieweddate = Some 0, csv_file = [],
              events = [Chrome, ImplicitlyWait, Get, Log (PageBanner 1), FindElement CookieButton,
                FindElements JobListing, FindElements ViewedDate, Log (SomeAlreadyScraped 0 1),
                Log (JobBanner 1 5), Click JobListing, FindElement EmailPopup,
                FindElement CompanyName, FindElement Location, FindElement JobTitle,
                FindElement JobDescription, FindElement SalaryEstimate, FindElement Rating,
                FindElements CompanyDetails, FindElements Subratings,
                Log (JobBanner 2 5), Click JobListing, FindElement EmailPopup,
                FindElement CompanyName, FindElement Location, FindElement JobTitle,
                FindElement JobDescription, FindElement SalaryEstimate, FindElement Rating,
                FindElements CompanyDetails, FindElements Subratings,
                FindElement NextButton, Log (NextPageUnavailable 5 2),
                Log (ReturnedDataFrame 5)], details_bound = True\<rparr>)"
    by (simp add: run_defs site_no_next_def scrape_job_full)
  from job_counter_bounded [OF run] show ?thesis using run by simp
qed

subsection \<open>C5: one retry for the job description\<close>

text \<open>
  C5. The description is looked up once when the first lookup finds it, and exactly
  twice when it does not; the job link is clicked a second time only in that case.
  When the second lookup fails too the field is \<^verbatim>\<open>-1\<close>; there is no third lookup.
\<close>

theorem description_single_retry:
  "count_list (snd (scrape_job b jl)) (FindElement JobDescription)
     = (if el_job_description (first_view jl) = None then 2 else 1)
   \<and> count_list (snd (scrape_job b jl)) (Click JobListing)
     = (if el_job_description (first_view jl) = None then 2 else 1)
   \<and> (fst (scrape_job b jl) = Inr r \<longrightarrow>
        job_description r =
          (case el_job_description (first_view jl) of
             Some t \<Rightarrow> Text t
           | None \<Rightarrow>
               (case el_job_description (reload_view jl) of
                  Some t \<Rightarrow> Text t
                | None \<Rightarrow> NotFound)))"
proof (intro conjI impI)
  show "count_list (snd (scrape_job b jl)) (FindElement JobDescription)
     = (if el_job_description (first_view jl) = None then 2 else 1)"
    by (subst scrape_job_events) (simp split: sum.splits)
  show "count_list (snd (scrape_job b jl)) (Click JobListing)
     = (if el_job_description (first_view jl) = None then 2 else 1)"
    by (subst scrape_job_events) (simp split: sum.splits)
next
  assume "fst (scrape_job b jl) = Inr r"
  from scrape_job_scalars(4) [OF this]
  show "job_description r =
          (case el_job_description (first_view jl) of
             Some t \<Rightarrow> Text t
           | None \<Rightarrow>
               (case el_job_description (reload_view jl) of
                  Some t \<Rightarrow> Text t
                | None \<Rightarrow> NotFound))"
    by (simp add: text_or_notfound_def split: option.splits)
qed

theorem description_single_retry_witness:
  "fst (scrape_job True job_no_description) = Inr (record_full\<lparr>job_description := NotFound\<rparr>)
   \<and> count_list (snd (scrape_job True job_no_description)) (FindElement JobDescription) = 2
   \<and> count_list (snd (scrape_job True job_no_description)) (Click JobListing) = 2
   \<and> job_description (record_full\<lparr>job_description := NotFound\<rparr>) = NotFound"
  using description_single_retry [of True job_no_description "record_full\<lparr>job_description := NotFound\<rparr>"]
  by (simp add: scrape_job_no_description)

subsection \<open>C6: field extraction is not total\<close>

text \<open>
  C6. The claim says that extraction always completes with a record. On a job whose
  company panel holds an element without a line break the unpacking of
  \<^verbatim>\<open>c.split("\n", 1)\<close> raises \<^verbatim>\<open>ValueError\<close>, which no handler catches: the run ends
  with that exception after the first job, and the job left on the page is never
  scraped. When such a job is the first of the run, the \<^verbatim>\<open>finally\<close> clause reads the
  still unbound \<^verbatim>\<open>size\<close> and the run ends with \<^verbatim>\<open>UnboundLocalError\<close> instead, with no
  record at all.
\<close>

theorem details_without_line_break_raise:
  "fst (scrape_job True job_bad_details) = Inl ValueError
   \<and> map_option fst (get_jobs any_dir site_bad_details (PyInt 3) False PyNone) = Some (Raised ValueError)
   \<and> map_option (jobs \<circ> snd) (get_jobs any_dir site_bad_details (PyInt 3) False PyNone)
       = Some (Some [record_full])
   \<and> fst (scrape_job False job_bad_details) = Inl UnboundLocalError
   \<and> map_option fst (get_jobs any_dir site_bad_details_first (PyInt 3) False PyNone)
       = Some (Raised UnboundLocalError)
   \<and> map_option (jobs \<circ> snd) (get_jobs any_dir site_bad_details_first (PyInt 3) False PyNone)
       = Some (Some [])"
  by (simp add: run_defs site_bad_details_def site_bad_details_first_def scrape_job_full
      scrape_job_bad_details reset_variables_def)

subsection \<open>C7: a failed next-page click when a path is given\<close>

text \<open>
  C7. The claim says that a failed next-page navigation ends the run normally in both
  sink modes. With a path the variable \<^verbatim>\<open>jobs\<close> is never assigned, and both handlers
  format \<^verbatim>\<open>len(jobs)\<close> into their message: the run ends with \<^verbatim>\<open>UnboundLocalError\<close>.
  Without a path the same pages make the run return the two records scraped so far.
\<close>

theorem csv_mode_navigation_failure_raises:
  "map_option fst (get_jobs any_dir site_no_next (PyInt 5) False (PyStr ''data''))
     = Some (Raised UnboundLocalError)
   \<and> map_option fst (get_jobs any_dir site_next_blocked (PyInt 5) False (PyStr ''data''))
     = Some (Raised UnboundLocalError)
   \<and> map_option fst (get_jobs any_dir site_no_next (PyInt 5) False PyNone)
     = Some (Returned (Some [record_full, record_full]))
   \<and> map_option fst (get_jobs any_dir site_next_blocked (PyInt 5) False PyNone)
     = Some (Returned (Some [record_full, record_full]))"
  by (simp add: run_defs site_no_next_def site_next_blocked_def scrape_job_full)

subsection \<open>C8: company details and sub-ratings by fixed labels\<close>




subsection \<open>C9: the browser session\<close>

text \<open>
  C9 as stated fails: a run that reaches its target returns with the session opened
  once and released zero times, not once.
\<close>

theorem session_released_once_counterexample:
  "map_option fst (get_jobs any_dir site_ten_unseen (PyInt 5) False PyNone)
     = Some (Returned (Some [record_full, record_full, record_full, record_full, record_full]))
   \<and> map_option (acquired \<circ> snd) (get_jobs any_dir site_ten_unseen (PyInt 5) False PyNone) = Some 1
   \<and> map_option (released \<circ> snd) (get_jobs any_dir site_ten_unseen (PyInt 5) False PyNone) = Some 0"
  by (simp add: run_defs site_ten_unseen_def scrape_job_full released_def acquired_def)

text \<open>
  C9, as amended. The browser session is opened exactly once, after both arguments
  passed validation and before the loop, and no run ends it: whatever way
  \<^verbatim>\<open>get_jobs\<close> ends, the trace holds no call that releases the session.
\<close>

theorem session_never_released:
  assumes "get_jobs isdir site num_jobs verbose path = Some (out, st')"
  shows "released st' = 0 \<and>
         acquired st' = (if isl (validatenumjobs num_jobs) \<or> isl (validatepath isdir path) then 0 else 1)"
proof (cases "validatenumjobs num_jobs")
  case (Inl e)
  with assms show ?thesis
    by (auto simp add: get_jobs_def untouched_def released_def acquired_def)
next
  case n: (Inr n)
  show ?thesis
  proof (cases "validatepath isdir path")
    case (Inl e)
    with n assms show ?thesis
      by (auto simp add: get_jobs_def untouched_def released_def acquired_def)
  next
    case (Inr p)
    with n assms have "crawl n p site (initial p) = Some (out, st')"
      by (simp add: get_jobs_def)
    from crawl_quiet [OF this] obtain evs where
      "events st' = [Chrome, ImplicitlyWait, Get] @ evs" "quiet evs"
      by auto
    with n Inr show ?thesis
      using count_list_quiet [of evs] by (simp add: released_def acquired_def)
  qed
qed

theorem session_never_released_witness:
  "map_option fst (get_jobs any_dir site_no_marker (PyInt 3) False PyNone) = Some (Raised (SystemExit 1))
   \<and> map_option (released \<circ> snd) (get_jobs any_dir site_no_marker (PyInt 3) False PyNone) = Some 0
   \<and> map_option (acquired \<circ> snd) (get_jobs any_dir site_no_marker (PyInt 3) False PyNone) = Some 1"
proof -
  obtain out st' where run: "get_jobs any_dir site_no_marker (PyInt 3) False PyNone = Some (out, st')"
    and out: "out = Raised (SystemExit 1)"
    by (simp add: run_defs site_no_marker_def scrape_job_full)
  from session_never_released [OF run] show ?thesis
    using run out by (simp add: validatenumjobs_def validatepath_def)
qed

subsection \<open>C10: a page without job links\<close>

text \<open>
  C10. On a page with no job links and no \<^verbatim>\<open>viewedDate\<close> elements the comparison is
  \<open>0 = 0\<close>, so the loop ends through the same branch as a page whose jobs were all
  viewed: the same message is logged and no job of the page is processed.
\<close>

theorem empty_page_is_caught_up:
  "job_counter st < n \<and> job_links (site (nextpage_counter st)) = [] \<and>
   viewed_dates (site (nextpage_counter st)) = Some 0
   \<longrightarrow> (\<exists>out st' evs. crawl n path site st = Some (out, st') \<and>
          job_counter st' = job_counter st \<and> sink_rows path st' = sink_rows path st \<and>
          nextpage_counter st' = nextpage_counter st \<and>
          events st' = events st @ evs \<and>
          Log (AllAlreadyScraped (nextpage_counter st + 1)) \<in> set evs \<and>
          Click JobListing \<notin> set evs \<and> FindElement NextButton \<notin> set evs)"
proof
  assume a: "job_counter st < n \<and> job_links (site (nextpage_counter st)) = [] \<and>
   viewed_dates (site (nextpage_counter st)) = Some 0"
  then have "viewed_dates (site (nextpage_counter st))
               = Some (length (job_links (site (nextpage_counter st))))"
    by simp
  with a caught_up_facts [of st n site path]
  show "\<exists>out st' evs. crawl n path site st = Some (out, st') \<and>
          job_counter st' = job_counter st \<and> sink_rows path st' = sink_rows path st \<and>
          nextpage_counter st' = nextpage_counter st \<and>
          events st' = events st @ evs \<and>
          Log (AllAlreadyScraped (nextpage_counter st + 1)) \<in> set evs \<and>
          Click JobListing \<notin> set evs \<and> FindElement NextButton \<notin> set evs"
    by blast
qed

theorem empty_page_is_caught_up_witness:
  "job_counter (initial PyNone) < 50 \<and> job_links (site_empty (nextpage_counter (initial PyNone))) = [] \<and>
   viewed_dates (site_empty (nextpage_counter (initial PyNone))) = Some 0 \<and>
   map_option fst (crawl 50 PyNone site_empty (initial PyNone)) = Some (Returned (Some [])) \<and>
   map_option (job_counter \<circ> snd) (crawl 50 PyNone site_empty (initial PyNone)) = Some 0"
  using empty_page_is_caught_up [of "initial PyNone" 50 site_empty PyNone]
  by (simp add: run_defs site_empty_def)

end
